theory Spec2Isabelle
  imports Complex_Main "HOL-Library.Word"
begin

unbundle bit_operations_syntax

section \<open>Single-precision arithmetic\<close>

text \<open>
  \<^verbatim>\<open>GLfloat\<close> and \<^verbatim>\<open>float\<close> are IEEE 754 binary32 on the platform the program is
  written for. A finite float is modelled by the rational number it denotes, and every
  operation of the source is the exact operation followed by rounding to the nearest
  binary32 value, ties to the even significand: 24 significant bits, exponents from
  \<open>-126\<close> (subnormals share that exponent) to \<open>127\<close>. Overflow to infinity is not
  represented: every float the program computes comes from a \<^verbatim>\<open>size_t\<close> below
  \<open>2 ^ 64\<close> or from a result of \<^verbatim>\<open>rand()\<close>, far below the largest finite value.
\<close>

text \<open>Nearest integer, ties to even.\<close>

definition round_even :: "rat \<Rightarrow> int" where
  "round_even q =
     (let f = \<lfloor>q\<rfloor>; d = q - of_int f
      in if d < 1/2 then f else if 1/2 < d then f + 1 else if even f then f else f + 1)"

text \<open>
  The binade of a magnitude: the greatest \<open>e\<close> in \<open>-125 .. 127\<close> with \<open>2 powi e \<le> q\<close>,
  and \<open>-126\<close> when there is none. \<open>find_exp n\<close> tries the \<open>n\<close> exponents from
  \<open>n - 126\<close> downwards.
\<close>

primrec find_exp :: "nat \<Rightarrow> rat \<Rightarrow> int" where
  "find_exp 0 q = -126"
| "find_exp (Suc k) q = (if 2 powi (int k - 125) \<le> q then int k - 125 else find_exp k q)"

definition f32_exponent :: "rat \<Rightarrow> int" where
  "f32_exponent q = find_exp 253 \<bar>q\<bar>"

definition f32_ulp :: "rat \<Rightarrow> rat" where
  "f32_ulp q = 2 powi (f32_exponent q - 23)"

text \<open>Rounding a rational to binary32.\<close>

definition f32 :: "rat \<Rightarrow> rat" where
  "f32 q = of_int (round_even (q / f32_ulp q)) * f32_ulp q"

text \<open>The operations of the source on \<^verbatim>\<open>float\<close>, and the conversion of an unsigned integer.\<close>

definition fadd :: "rat \<Rightarrow> rat \<Rightarrow> rat" where
  "fadd a b = f32 (a + b)"

definition fsub :: "rat \<Rightarrow> rat \<Rightarrow> rat" where
  "fsub a b = f32 (a - b)"

definition fmul :: "rat \<Rightarrow> rat \<Rightarrow> rat" where
  "fmul a b = f32 (a * b)"

definition fdiv :: "rat \<Rightarrow> rat \<Rightarrow> rat" where
  "fdiv a b = f32 (a / b)"

definition float_of_nat :: "nat \<Rightarrow> rat" where
  "float_of_nat n = f32 (of_nat n)"


section \<open>The grid generator\<close>

text \<open>
  \<^verbatim>\<open>struct QuadVertex { GLfloat x, y; GLfloat size; GLubyte r, g, b, a; }\<close>.
  The fields carry the prefix \<open>quad_\<close>: \<open>x\<close>, \<open>size\<close> and the others would otherwise
  take over names that every later statement needs.
\<close>

record QuadVertex =
  quad_x :: rat
  quad_y :: rat
  quad_size :: rat
  quad_r :: "8 word"
  quad_g :: "8 word"
  quad_b :: "8 word"
  quad_a :: "8 word"

definition kRows :: nat where
  "kRows = 10"

definition kColumns :: nat where
  "kColumns = 10"

text \<open>
  \<^verbatim>\<open>rand()\<close> belongs to the C library. Its results are a parameter: \<open>rnd k\<close> is what
  the call number \<open>k\<close> after \<^verbatim>\<open>srand\<close> returns, and the state is the number of calls
  made so far. The library promises \<open>rnd k \<le> RAND_MAX\<close>; \<^verbatim>\<open>RAND_MAX\<close> is a
  parameter as well, at least \<open>32767\<close> in every C library, so that the division by
  \<^verbatim>\<open>(float) RAND_MAX\<close> is never one by zero. \<^verbatim>\<open>srand\<close> fixes the whole sequence
  \<open>rnd\<close> from the seed.
\<close>

definition rand :: "(nat \<Rightarrow> nat) \<Rightarrow> nat \<Rightarrow> nat \<times> nat" where
  "rand rnd n = (rnd n, Suc n)"

text \<open>
  The body of the inner loop (lines 219 to 231), for the cell \<open>(row, column)\<close> of a grid
  of \<open>rows \<times> columns\<close> cells. The literals \<^verbatim>\<open>0.05f\<close> and \<^verbatim>\<open>0.04f\<close> are the
  floats nearest \<open>1/20\<close> and \<open>1/25\<close>; \<^verbatim>\<open>2.0f\<close>, \<^verbatim>\<open>0.5f\<close> and \<^verbatim>\<open>1.0f\<close> are
  exact. The product and the sum of the size are rounded one after the other (no fused
  multiply-add). \<^verbatim>\<open>GLubyte(96 + rand() % 128)\<close> is computed in \<^verbatim>\<open>int\<close> and then
  narrowed. The division by \<^verbatim>\<open>(float) kColumns\<close> happens inside the loops only, where
  \<open>columns\<close> and \<open>rows\<close> are positive.
\<close>

definition make_quad ::
  "nat \<Rightarrow> (nat \<Rightarrow> nat) \<Rightarrow> nat \<Rightarrow> nat \<Rightarrow> nat \<Rightarrow> nat \<Rightarrow> nat \<Rightarrow> QuadVertex \<times> nat" where
  "make_quad RAND_MAX rnd rows columns row column n0 =
     (let qx = fsub (fdiv (fmul 2 (fadd (1/2) (float_of_nat column))) (float_of_nat columns)) 1;
          qy = fsub (fdiv (fmul 2 (fadd (1/2) (float_of_nat row))) (float_of_nat rows)) 1;
          (v0, n1) = rand rnd n0;
          qsize = fadd (f32 (1/20))
                    (fmul (fdiv (float_of_nat v0) (float_of_nat RAND_MAX)) (f32 (1/25)));
          (v1, n2) = rand rnd n1;
          (v2, n3) = rand rnd n2;
          (v3, n4) = rand rnd n3
      in (\<lparr>quad_x = qx, quad_y = qy, quad_size = qsize,
           quad_r = of_nat (96 + v1 mod 128),
           quad_g = of_nat (96 + v2 mod 128),
           quad_b = of_nat (96 + v3 mod 128),
           quad_a = 255\<rparr>, n4))"

text \<open>\<^verbatim>\<open>for (size_t column = 0; column < kColumns; column++)\<close>, with \<^verbatim>\<open>push_back\<close>.\<close>

function column_loop ::
  "nat \<Rightarrow> (nat \<Rightarrow> nat) \<Rightarrow> nat \<Rightarrow> nat \<Rightarrow> nat \<Rightarrow> nat \<Rightarrow> QuadVertex list \<Rightarrow> nat
     \<Rightarrow> QuadVertex list \<times> nat" where
  "column_loop RAND_MAX rnd rows columns row column quadData n =
     (if column < columns
      then (let (quad, n') = make_quad RAND_MAX rnd rows columns row column n
            in column_loop RAND_MAX rnd rows columns row (Suc column) (quadData @ [quad]) n')
      else (quadData, n))"
  by pat_completeness auto
termination
  by (relation "measure (\<lambda>(RAND_MAX, rnd, rows, columns, row, column, quadData, n).
        columns - column)") auto

text \<open>\<^verbatim>\<open>for (size_t row = 0; row < kRows; row++)\<close>.\<close>

function row_loop ::
  "nat \<Rightarrow> (nat \<Rightarrow> nat) \<Rightarrow> nat \<Rightarrow> nat \<Rightarrow> nat \<Rightarrow> QuadVertex list \<Rightarrow> nat
     \<Rightarrow> QuadVertex list \<times> nat" where
  "row_loop RAND_MAX rnd rows columns row quadData n =
     (if row < rows
      then (let (quadData', n') = column_loop RAND_MAX rnd rows columns row 0 quadData n
            in row_loop RAND_MAX rnd rows columns (Suc row) quadData' n')
      else (quadData, n))"
  by pat_completeness auto
termination
  by (relation "measure (\<lambda>(RAND_MAX, rnd, rows, columns, row, quadData, n). rows - row)") auto

text \<open>
  Lines 214 to 233: the vector starts empty, and no call of \<^verbatim>\<open>rand\<close> precedes the loops.
  The result is the vector and the number of calls of \<^verbatim>\<open>rand\<close> made.
\<close>

definition generate_grid ::
  "nat \<Rightarrow> (nat \<Rightarrow> nat) \<Rightarrow> nat \<Rightarrow> nat \<Rightarrow> QuadVertex list \<times> nat" where
  "generate_grid RAND_MAX rnd rows columns = row_loop RAND_MAX rnd rows columns 0 [] 0"


section \<open>The calls the program makes\<close>

text \<open>
  SDL and OpenGL are outside the program. The program is modelled by the calls it makes
  to them, in order, with the arguments that matter; what they return is read from an
  environment. A pointer or an object name is a number, \<open>0\<close> for \<^verbatim>\<open>nullptr\<close> and for
  the name of no object. \<^verbatim>\<open>SDL_PollEvent\<close>, \<^verbatim>\<open>SDL_GetError\<close>, \<^verbatim>\<open>SDL_WasInit\<close>,
  \<^verbatim>\<open>time\<close> and \<^verbatim>\<open>srand\<close> are not listed among the calls: what they return shows in
  the events handled, in the arguments of the calls that follow them, and in the results
  of \<^verbatim>\<open>rand\<close>.
\<close>

type_synonym handle = nat

datatype shader_type = GL_VERTEX_SHADER | GL_TESS_EVALUATION_SHADER | GL_FRAGMENT_SHADER

text \<open>The three embedded shader texts, by the names of their arrays.\<close>

datatype shader_source = VertexShaderSource | TessEvaluationShaderSource | FragmentShaderSource

datatype polygon_mode = GL_LINE | GL_FILL

text \<open>
  The primitive types of \<^verbatim>\<open>glDrawArrays\<close> (the program uses \<^verbatim>\<open>GL_PATCHES\<close> only) and
  the parameter names of \<^verbatim>\<open>glPatchParameteri\<close> and \<^verbatim>\<open>glPatchParameterfv\<close>.
\<close>

datatype primitive = GL_POINTS | GL_LINES | GL_TRIANGLES | GL_PATCHES

datatype patch_parameter =
  GL_PATCH_VERTICES | GL_PATCH_DEFAULT_INNER_LEVEL | GL_PATCH_DEFAULT_OUTER_LEVEL

datatype gl_type = GL_FLOAT | GL_UNSIGNED_BYTE

datatype SDL_GLattr =
  SDL_GL_CONTEXT_MAJOR_VERSION | SDL_GL_CONTEXT_MINOR_VERSION | SDL_GL_CONTEXT_PROFILE_MASK

text \<open>\<^verbatim>\<open>offsetof(QuadVertex, x)\<close>, \<^verbatim>\<open>offsetof(QuadVertex, size)\<close>, \<^verbatim>\<open>offsetof(QuadVertex, r)\<close>.\<close>

datatype QuadVertex_field = offsetof_x | offsetof_size | offsetof_r

datatype call =
    SDL_InitSubSystem "32 word"
  | SDL_Log string
  | SDL_GL_SetAttribute SDL_GLattr int
  | SDL_CreateWindow string int int
  | SDL_ShowSimpleMessageBox string string handle
  | SDL_GL_CreateContext handle
  | SDL_GL_DeleteContext handle
  | SDL_DestroyWindow handle
  | SDL_QuitSubSystem "32 word"
  | SDL_GL_SwapWindow handle
  | glCreateShader shader_type
  | glShaderSource handle shader_source
  | glCompileShader handle
  | glGetShaderiv handle
  | glGetShaderInfoLog handle
  | glDeleteShader handle
  | glCreateProgram
  | glAttachShader handle handle
  | glLinkProgram handle
  | glGetProgramiv handle
  | glGetProgramInfoLog handle
  | glDeleteProgram handle
  | glViewport int int int int
  | glGenVertexArrays
  | glBindVertexArray handle
  | glGenBuffers
  | glBindBuffer handle
  | glBufferData "QuadVertex list"
  | glVertexAttribPointer nat nat gl_type bool QuadVertex_field
  | glEnableVertexAttribArray nat
  | glGetUniformLocation handle string
  | glPatchParameterfv patch_parameter "rat list"
  | glUseProgram handle
  | glClearColor rat rat rat rat
  | glClear
  | glPatchParameteri patch_parameter int
  | glUniform3f int rat rat rat
  | glDrawArrays primitive int int
  | glPolygonMode polygon_mode
  | glDeleteBuffers handle
  | glDeleteVertexArrays handle

text \<open>
  An event as \<^verbatim>\<open>HandleEvents\<close> reads it: \<^verbatim>\<open>e.type\<close>, and for a window event
  \<^verbatim>\<open>e.window.event\<close>, \<^verbatim>\<open>e.window.data1\<close> and \<^verbatim>\<open>e.window.data2\<close>.
\<close>

datatype SDL_Event =
    SDL_WINDOWEVENT nat int int
  | SDL_QUIT
  | SDL_OtherEvent nat

text \<open>Constants of the SDL 2 headers.\<close>

definition SDL_WINDOWEVENT_RESIZED :: nat where
  "SDL_WINDOWEVENT_RESIZED = 5"

definition SDL_INIT_TIMER :: "32 word" where
  "SDL_INIT_TIMER = 0x1"

definition SDL_INIT_VIDEO :: "32 word" where
  "SDL_INIT_VIDEO = 0x20"

definition SDL_INIT_EVERYTHING :: "32 word" where
  "SDL_INIT_EVERYTHING = 0xF231"

definition SDL_GL_CONTEXT_PROFILE_CORE :: int where
  "SDL_GL_CONTEXT_PROFILE_CORE = 1"

text \<open>
  What the outside returns. \<open>pending env k\<close> is the list of events that
  \<^verbatim>\<open>SDL_PollEvent\<close> has to hand out, in order, when the frame loop polls for the time
  number \<open>k\<close>. \<open>init_subsystems\<close> is the set of subsystems that SDL reports as
  initialised after \<^verbatim>\<open>SDL_InitSubSystem\<close> returns.
\<close>

record env =
  rand_max :: nat
  rand_results :: "nat \<Rightarrow> nat"
  init_result :: int
  init_subsystems :: "32 word"
  sdl_error :: string
  created_window :: handle
  created_context :: handle
  created_vertex_array :: handle
  created_buffer :: handle
  created_shader :: "shader_type \<Rightarrow> handle"
  compile_status :: "shader_type \<Rightarrow> bool"
  shader_log :: "shader_type \<Rightarrow> string"
  created_program :: handle
  link_status :: bool
  program_log :: string
  uniform_location :: int
  pending :: "nat \<Rightarrow> SDL_Event list"

text \<open>
  The two globals of the program, \<^verbatim>\<open>window\<close> and \<^verbatim>\<open>context\<close> (\<open>context\<close> is a
  keyword here, hence \<open>gl_context\<close>), and the one piece of SDL's own state that
  \<^verbatim>\<open>CleanupSDL\<close> reads back: the flags of the initialised subsystems.
  \<^verbatim>\<open>SDL_WasInit(flags)\<close> returns those of \<open>flags\<close> that are initialised, and
  \<^verbatim>\<open>SDL_QuitSubSystem(flags)\<close> shuts the subsystems of \<open>flags\<close> down.
\<close>

record state =
  window :: handle
  gl_context :: handle
  subsystems :: "32 word"

section \<open>The functions of the program\<close>

text \<open>
  \<^verbatim>\<open>CreateShader\<close> (lines 103 to 124). \<^verbatim>\<open>log\<close> has 512 bytes, so at most 511
  characters of the log are shown.
\<close>

definition CreateShader ::
  "env \<Rightarrow> state \<Rightarrow> shader_type \<Rightarrow> shader_source \<Rightarrow> handle \<times> call list" where
  "CreateShader env s type src =
     (let shader = created_shader env type;
          calls = [glCreateShader type, glShaderSource shader src, glCompileShader shader,
                   glGetShaderiv shader]
      in if \<not> compile_status env type
         then (0, calls @
                [glGetShaderInfoLog shader,
                 SDL_ShowSimpleMessageBox ''Shader compilation failed''
                   (take 511 (shader_log env type)) (window s),
                 glDeleteShader shader])
         else (shader, calls))"

text \<open>\<^verbatim>\<open>CreateShaderProgram\<close> (lines 126 to 150).\<close>

definition CreateShaderProgram :: "env \<Rightarrow> state \<Rightarrow> handle list \<Rightarrow> handle \<times> call list" where
  "CreateShaderProgram env s shaders =
     (let program = created_program env;
          calls = [glCreateProgram] @ map (glAttachShader program) shaders @
                  [glLinkProgram program, glGetProgramiv program]
      in if \<not> link_status env
         then (0, calls @
                [glGetProgramInfoLog program,
                 SDL_ShowSimpleMessageBox ''Shader program link failed''
                   (take 511 (program_log env)) (window s),
                 glDeleteProgram program])
         else (program, calls))"

text \<open>
  \<^verbatim>\<open>HandleEvents\<close> (lines 152 to 170), on the events that \<^verbatim>\<open>SDL_PollEvent\<close> hands
  out: the value returned, the calls made, and the events left in the queue.
\<close>

fun HandleEvents :: "SDL_Event list \<Rightarrow> bool \<times> call list \<times> SDL_Event list" where
  "HandleEvents [] = (True, [], [])"
| "HandleEvents (SDL_WINDOWEVENT event data1 data2 # queue) =
     (let (continue, calls, rest) = HandleEvents queue
      in (continue,
          (if event = SDL_WINDOWEVENT_RESIZED then [glViewport 0 0 data1 data2] else []) @ calls,
          rest))"
| "HandleEvents (SDL_QUIT # queue) = (False, [], queue)"
| "HandleEvents (SDL_OtherEvent type # queue) = HandleEvents queue"

text \<open>\<^verbatim>\<open>CleanupSDL\<close> (lines 172 to 187).\<close>

definition CleanupSDL :: "int \<Rightarrow> state \<Rightarrow> int \<times> state \<times> call list" where
  "CleanupSDL status s =
     (let (s1, calls1) =
            (if gl_context s \<noteq> 0
             then (s\<lparr>gl_context := 0\<rparr>, [SDL_GL_DeleteContext (gl_context s)])
             else (s, []));
          (s2, calls2) =
            (if window s1 \<noteq> 0
             then (s1\<lparr>window := 0\<rparr>, [SDL_DestroyWindow (window s1)])
             else (s1, []));
          flags = subsystems s2 AND SDL_INIT_EVERYTHING;
          s3 = s2\<lparr>subsystems := subsystems s2 AND NOT flags\<rparr>
      in (status, s3, calls1 @ calls2 @ [SDL_QuitSubSystem flags]))"

text \<open>
  The body of the frame loop after \<^verbatim>\<open>HandleEvents\<close> (lines 286 to 302).
  \<^verbatim>\<open>(GLsizei) (kRows * kColumns)\<close> narrows a \<^verbatim>\<open>size_t\<close> to a signed 32-bit integer.
\<close>

definition draw_frame :: "handle \<Rightarrow> int \<Rightarrow> call list" where
  "draw_frame win colorLocation =
     [glClearColor 0 (f32 (1/10)) (f32 (1/10)) 1,
      glClear,
      glPatchParameteri GL_PATCH_VERTICES 1,
      glUniform3f colorLocation 0 0 0,
      glDrawArrays GL_PATCHES 0 (sint (of_nat (kRows * kColumns) :: 32 word)),
      glPolygonMode GL_LINE,
      glUniform3f colorLocation 1 1 1,
      glDrawArrays GL_PATCHES 0 (sint (of_nat (kRows * kColumns) :: 32 word)),
      glPolygonMode GL_FILL,
      SDL_GL_SwapWindow win]"

text \<open>
  \<^verbatim>\<open>while (true) { if (!HandleEvents()) break; ... }\<close> (lines 281 to 303), from the
  poll number \<open>k\<close> on, after the calls \<open>calls\<close>. The loop ends only at a quit event:
  when none ever comes the result is \<open>None\<close>.
\<close>

partial_function (option) frame_loop ::
  "env \<Rightarrow> handle \<Rightarrow> int \<Rightarrow> nat \<Rightarrow> call list \<Rightarrow> call list option" where
  "frame_loop env win colorLocation k calls =
     (case HandleEvents (pending env k) of
        (continue, event_calls, rest) \<Rightarrow>
          if \<not> continue then Some (calls @ event_calls)
          else frame_loop env win colorLocation (Suc k)
                 (calls @ event_calls @ draw_frame win colorLocation))"

text \<open>
  \<^verbatim>\<open>main\<close> (lines 189 to 315): the exit status and the calls made, or \<open>None\<close> when
  the frame loop never ends.
\<close>

definition main :: "env \<Rightarrow> (int \<times> call list) option" where
  "main env =
     (let s0 = \<lparr>window = 0, gl_context = 0, subsystems = 0\<rparr>;
          s1 = s0\<lparr>subsystems := init_subsystems env\<rparr>;
          t1 = [SDL_InitSubSystem (SDL_INIT_VIDEO OR SDL_INIT_TIMER)]
      in if init_result env < 0
         then (case CleanupSDL 1 s1 of
                 (status, s', cleanup) \<Rightarrow>
                   Some (status,
                         t1 @ [SDL_Log (''Error initializing SDL: '' @ sdl_error env)] @ cleanup))
         else
          (let t2 = t1 @
                 [SDL_GL_SetAttribute SDL_GL_CONTEXT_MAJOR_VERSION 4,
                  SDL_GL_SetAttribute SDL_GL_CONTEXT_MINOR_VERSION 1,
                  SDL_GL_SetAttribute SDL_GL_CONTEXT_PROFILE_MASK SDL_GL_CONTEXT_PROFILE_CORE,
                  SDL_CreateWindow ''Quads'' 800 600];
               s2 = s1\<lparr>window := created_window env\<rparr>
           in if window s2 = 0
              then (case CleanupSDL 1 s2 of
                      (status, s', cleanup) \<Rightarrow>
                        Some (status,
                              t2 @ [SDL_ShowSimpleMessageBox ''Error creating window''
                                      (sdl_error env) 0] @ cleanup))
              else
               (let t3 = t2 @ [SDL_GL_CreateContext (window s2)];
                    s3 = s2\<lparr>gl_context := created_context env\<rparr>
                in if gl_context s3 = 0
                   then (case CleanupSDL 1 s3 of
                           (status, s', cleanup) \<Rightarrow>
                             Some (status,
                                   t3 @ [SDL_ShowSimpleMessageBox
                                           ''Error creating OpenGL 4.1 context''
                                           (sdl_error env) (window s3)] @ cleanup))
                   else
                    (let (quadData, draws) =
                           generate_grid (rand_max env) (rand_results env) kRows kColumns;
                         dummyVAO = created_vertex_array env;
                         vbo = created_buffer env;
                         t4 = t3 @
                           [glGenVertexArrays, glBindVertexArray dummyVAO,
                            glGenBuffers, glBindBuffer vbo,
                            glBufferData quadData,
                            glVertexAttribPointer 0 2 GL_FLOAT False offsetof_x,
                            glVertexAttribPointer 1 1 GL_FLOAT False offsetof_size,
                            glVertexAttribPointer 2 4 GL_UNSIGNED_BYTE True offsetof_r,
                            glEnableVertexAttribArray 0,
                            glEnableVertexAttribArray 1,
                            glEnableVertexAttribArray 2];
                         (vs, calls_vs) = CreateShader env s3 GL_VERTEX_SHADER VertexShaderSource;
                         (tes, calls_tes) =
                           CreateShader env s3 GL_TESS_EVALUATION_SHADER TessEvaluationShaderSource;
                         (fs, calls_fs) =
                           CreateShader env s3 GL_FRAGMENT_SHADER FragmentShaderSource;
                         shaderObjects = [vs, tes, fs];
                         (shaderProgram, calls_program) = CreateShaderProgram env s3 shaderObjects;
                         colorLocation = uniform_location env;
                         t5 = t4 @ calls_vs @ calls_tes @ calls_fs @ calls_program @
                           [glGetUniformLocation shaderProgram ''ConstantColor'',
                            glPatchParameterfv GL_PATCH_DEFAULT_INNER_LEVEL [1, 1],
                            glPatchParameterfv GL_PATCH_DEFAULT_OUTER_LEVEL [1, 1, 1, 1],
                            glUseProgram shaderProgram]
                     in case frame_loop env (window s3) colorLocation 0 t5 of
                          None \<Rightarrow> None
                        | Some t6 \<Rightarrow>
                           (case CleanupSDL 0 s3 of
                              (status, s', cleanup) \<Rightarrow>
                                Some (status,
                                      t6 @ map glDeleteShader shaderObjects @
                                      [glDeleteProgram shaderProgram,
                                       glDeleteBuffers vbo,
                                       glDeleteVertexArrays dummyVAO] @ cleanup))))))"

section \<open>What OpenGL makes of the calls\<close>

text \<open>
  The part of the OpenGL state that the properties below speak of: the polygon mode
  (\<^verbatim>\<open>GL_FILL\<close> in a fresh context), the three floats last passed to \<^verbatim>\<open>glUniform3f\<close>
  with the location they were passed for (the program passes one location only, that of
  \<^verbatim>\<open>ConstantColor\<close>), the number of vertices of a patch (\<open>3\<close> in a fresh context; set
  by \<^verbatim>\<open>glPatchParameteri\<close> with \<^verbatim>\<open>GL_PATCH_VERTICES\<close> and a positive value, any other
  call of it being an error that changes nothing), and the viewport.

  \<open>shown\<close> lists what the calls draw and present. For each \<^verbatim>\<open>glDrawArrays\<close> it has a
  \<open>Draw\<close> with, in this order: the primitive type, the polygon mode at the time of the
  call, the uniform at the time of the call, the first vertex, the number of vertices,
  and the number of patches submitted. For each \<^verbatim>\<open>SDL_GL_SwapWindow\<close> it has a
  \<open>Present\<close> with the polygon mode left behind.
\<close>

datatype gl_output =
    Draw primitive polygon_mode "(int \<times> rat \<times> rat \<times> rat) option" int int int
  | Present polygon_mode

record gl =
  mode :: polygon_mode
  color :: "(int \<times> rat \<times> rat \<times> rat) option"
  patch_vertices :: int
  viewport :: "int \<times> int \<times> int \<times> int"
  shown :: "gl_output list"

text \<open>
  A draw of \<open>count\<close> vertices as patches of \<open>k\<close> vertices submits \<open>count div k\<close>
  patches, the vertices of an incomplete last patch being dropped; a draw of another
  primitive type submits none.
\<close>

definition patches_submitted :: "primitive \<Rightarrow> int \<Rightarrow> int \<Rightarrow> int" where
  "patches_submitted p count k =
     (if p = GL_PATCHES \<and> 0 < k \<and> 0 \<le> count then count div k else 0)"

definition gl_step :: "gl \<Rightarrow> call \<Rightarrow> gl" where
  "gl_step g c =
     (case c of
        glPolygonMode m \<Rightarrow> g\<lparr>mode := m\<rparr>
      | glUniform3f location v0 v1 v2 \<Rightarrow> g\<lparr>color := Some (location, v0, v1, v2)\<rparr>
      | glPatchParameteri pname v \<Rightarrow>
          (if pname = GL_PATCH_VERTICES \<and> 0 < v then g\<lparr>patch_vertices := v\<rparr> else g)
      | glViewport x y width height \<Rightarrow> g\<lparr>viewport := (x, y, width, height)\<rparr>
      | glDrawArrays p first count \<Rightarrow>
          g\<lparr>shown := shown g @
              [Draw p (mode g) (color g) first count
                 (patches_submitted p count (patch_vertices g))]\<rparr>
      | SDL_GL_SwapWindow w \<Rightarrow> g\<lparr>shown := shown g @ [Present (mode g)]\<rparr>
      | _ \<Rightarrow> g)"

definition gl_run :: "gl \<Rightarrow> call list \<Rightarrow> gl" where
  "gl_run g calls = foldl gl_step g calls"

text \<open>A fresh context behind a window of \<open>width \<times> height\<close> pixels.\<close>

definition fresh_gl :: "int \<Rightarrow> int \<Rightarrow> gl" where
  "fresh_gl width height =
     \<lparr>mode = GL_FILL, color = None, patch_vertices = 3,
      viewport = (0, 0, width, height), shown = []\<rparr>"

text \<open>
  Calls that destroy something: the context, the window, or an OpenGL object. And calls
  that only the body of the frame loop makes.
\<close>

definition destroys :: "call \<Rightarrow> bool" where
  "destroys c =
     (case c of
        SDL_GL_DeleteContext h \<Rightarrow> True
      | SDL_DestroyWindow h \<Rightarrow> True
      | glDeleteShader h \<Rightarrow> True
      | glDeleteProgram h \<Rightarrow> True
      | glDeleteBuffers h \<Rightarrow> True
      | glDeleteVertexArrays h \<Rightarrow> True
      | _ \<Rightarrow> False)"

definition frame_call :: "call \<Rightarrow> bool" where
  "frame_call c =
     (case c of
        glClear \<Rightarrow> True
      | glDrawArrays p first count \<Rightarrow> True
      | SDL_GL_SwapWindow w \<Rightarrow> True
      | _ \<Rightarrow> False)"

section \<open>The pieces of a run\<close>

text \<open>
  Names for the parts of the trace of a run that gets past the bootstrap, used to state
  what \<open>main\<close> returns: the state in which the frame loop runs, the shader objects, the
  program object, the calls before the loop, and the calls after it.
\<close>

definition running_state :: "env \<Rightarrow> state" where
  "running_state env =
     \<lparr>window = created_window env, gl_context = created_context env,
      subsystems = init_subsystems env\<rparr>"

definition shader_objects :: "env \<Rightarrow> handle list" where
  "shader_objects env =
     [fst (CreateShader env (running_state env) GL_VERTEX_SHADER VertexShaderSource),
      fst (CreateShader env (running_state env) GL_TESS_EVALUATION_SHADER
             TessEvaluationShaderSource),
      fst (CreateShader env (running_state env) GL_FRAGMENT_SHADER FragmentShaderSource)]"

definition shader_program :: "env \<Rightarrow> handle" where
  "shader_program env =
     fst (CreateShaderProgram env (running_state env) (shader_objects env))"

definition setup_calls :: "env \<Rightarrow> call list" where
  "setup_calls env =
     [SDL_InitSubSystem (SDL_INIT_VIDEO OR SDL_INIT_TIMER),
      SDL_GL_SetAttribute SDL_GL_CONTEXT_MAJOR_VERSION 4,
      SDL_GL_SetAttribute SDL_GL_CONTEXT_MINOR_VERSION 1,
      SDL_GL_SetAttribute SDL_GL_CONTEXT_PROFILE_MASK SDL_GL_CONTEXT_PROFILE_CORE,
      SDL_CreateWindow ''Quads'' 800 600,
      SDL_GL_CreateContext (created_window env),
      glGenVertexArrays, glBindVertexArray (created_vertex_array env),
      glGenBuffers, glBindBuffer (created_buffer env),
      glBufferData (fst (generate_grid (rand_max env) (rand_results env) kRows kColumns)),
      glVertexAttribPointer 0 2 GL_FLOAT False offsetof_x,
      glVertexAttribPointer 1 1 GL_FLOAT False offsetof_size,
      glVertexAttribPointer 2 4 GL_UNSIGNED_BYTE True offsetof_r,
      glEnableVertexAttribArray 0,
      glEnableVertexAttribArray 1,
      glEnableVertexAttribArray 2] @
     snd (CreateShader env (running_state env) GL_VERTEX_SHADER VertexShaderSource) @
     snd (CreateShader env (running_state env) GL_TESS_EVALUATION_SHADER
            TessEvaluationShaderSource) @
     snd (CreateShader env (running_state env) GL_FRAGMENT_SHADER FragmentShaderSource) @
     snd (CreateShaderProgram env (running_state env) (shader_objects env)) @
     [glGetUniformLocation (shader_program env) ''ConstantColor'',
      glPatchParameterfv GL_PATCH_DEFAULT_INNER_LEVEL [1, 1],
      glPatchParameterfv GL_PATCH_DEFAULT_OUTER_LEVEL [1, 1, 1, 1],
      glUseProgram (shader_program env)]"

definition teardown_calls :: "env \<Rightarrow> call list" where
  "teardown_calls env =
     map glDeleteShader (shader_objects env) @
     [glDeleteProgram (shader_program env),
      glDeleteBuffers (created_buffer env),
      glDeleteVertexArrays (created_vertex_array env)] @
     snd (snd (CleanupSDL 0 (running_state env)))"

text \<open>The calls of the frame loop for the polls \<open>k0, \<dots>, n - 1\<close>, none of which has a quit event.\<close>

definition frames :: "env \<Rightarrow> nat \<Rightarrow> nat \<Rightarrow> call list" where
  "frames env k0 n =
     concat (map (\<lambda>k. fst (snd (HandleEvents (pending env k))) @
                       draw_frame (created_window env) (uniform_location env))
                 [k0..<n])"


section \<open>Example inputs\<close>

text \<open>A random source that returns \<open>v\<close> at every call.\<close>

definition always :: "nat \<Rightarrow> nat \<Rightarrow> nat" where
  "always v k = v"

text \<open>A random source that counts its calls: \<open>0, 1, 2, \<dots>\<close> up to \<open>limit\<close>, then \<open>0\<close> for ever.\<close>

definition counting :: "nat \<Rightarrow> nat \<Rightarrow> nat" where
  "counting limit k = (if k < limit then k else 0)"

text \<open>
  A run in which everything succeeds. The window is resized before the first frame; at
  the third poll a mouse motion event (type \<open>0x400\<close>) arrives, then a quit event, then
  another resize.
\<close>

definition example_events :: "nat \<Rightarrow> SDL_Event list" where
  "example_events k =
     (if k = 0 then [SDL_WINDOWEVENT SDL_WINDOWEVENT_RESIZED 1024 768]
      else if k = 2
      then [SDL_OtherEvent 1024, SDL_QUIT, SDL_WINDOWEVENT SDL_WINDOWEVENT_RESIZED 640 480]
      else [])"

definition example_shader :: "shader_type \<Rightarrow> handle" where
  "example_shader type =
     (case type of GL_VERTEX_SHADER \<Rightarrow> 1 | GL_TESS_EVALUATION_SHADER \<Rightarrow> 2
      | GL_FRAGMENT_SHADER \<Rightarrow> 3)"

definition all_compile :: "shader_type \<Rightarrow> bool" where
  "all_compile type = True"

definition no_log :: "shader_type \<Rightarrow> string" where
  "no_log type = []"

definition example_env :: env where
  "example_env =
     \<lparr>rand_max = 2147483647, rand_results = counting 400,
      init_result = 0, init_subsystems = 0x4021, sdl_error = [],
      created_window = 7, created_context = 8,
      created_vertex_array = 1, created_buffer = 1,
      created_shader = example_shader, compile_status = all_compile, shader_log = no_log,
      created_program = 4, link_status = True, program_log = [],
      uniform_location = 0, pending = example_events\<rparr>"

text \<open>The same run with a fragment shader that does not compile.\<close>

definition fragment_fails :: "shader_type \<Rightarrow> bool" where
  "fragment_fails type = (type \<noteq> GL_FRAGMENT_SHADER)"

definition fragment_log :: "shader_type \<Rightarrow> string" where
  "fragment_log type = (if type = GL_FRAGMENT_SHADER then ''ERROR: 0:8: syntax error'' else [])"

definition broken_shader_env :: env where
  "broken_shader_env =
     example_env\<lparr>compile_status := fragment_fails, shader_log := fragment_log,
                 link_status := False\<rparr>"

text \<open>A run in which the context cannot be created.\<close>

definition no_context_env :: env where
  "no_context_env = example_env\<lparr>created_context := 0, sdl_error := ''no OpenGL 4.1''\<rparr>"

text \<open>A run whose first poll finds a quit event followed by a resize.\<close>

definition quit_then_resize :: "nat \<Rightarrow> SDL_Event list" where
  "quit_then_resize k = [SDL_QUIT, SDL_WINDOWEVENT SDL_WINDOWEVENT_RESIZED 640 480]"

definition quit_first_env :: env where
  "quit_first_env = example_env\<lparr>pending := quit_then_resize\<rparr>"


section \<open>Rounding is monotone\<close>

lemma round_even_near:
  "of_int (round_even q) - 1/2 \<le> q \<and> q \<le> of_int (round_even q) + 1/2"
proof -
  define d where "d = q - of_int \<lfloor>q\<rfloor>"
  have fl: "0 \<le> d" "d < 1" unfolding d_def by linarith+
  have q: "q = of_int \<lfloor>q\<rfloor> + d" by (simp add: d_def)
  have re: "round_even q =
      (if d < 1/2 then \<lfloor>q\<rfloor> else if 1/2 < d then \<lfloor>q\<rfloor> + 1
       else if even \<lfloor>q\<rfloor> then \<lfloor>q\<rfloor> else \<lfloor>q\<rfloor> + 1)"
    by (simp add: round_even_def Let_def d_def)
  show ?thesis
  proof (cases "d < 1/2")
    case True
    with re have "round_even q = \<lfloor>q\<rfloor>" by simp
    with fl True q show ?thesis by linarith
  next
    case False
    show ?thesis
    proof (cases "1/2 < d")
      case True
      with re False have "round_even q = \<lfloor>q\<rfloor> + 1" by simp
      then have "(of_int (round_even q) :: rat) = of_int \<lfloor>q\<rfloor> + 1" by simp
      with fl True q show ?thesis by linarith
    next
      case nt: False
      with False have "d = 1/2" by simp
      from re consider "round_even q = \<lfloor>q\<rfloor>" | "round_even q = \<lfloor>q\<rfloor> + 1"
        by (auto split: if_splits)
      then show ?thesis
      proof cases
        case 1
        with \<open>d = 1/2\<close> q show ?thesis by linarith
      next
        case 2
        then have "(of_int (round_even q) :: rat) = of_int \<lfloor>q\<rfloor> + 1" by simp
        with \<open>d = 1/2\<close> q show ?thesis by linarith
      qed
    qed
  qed
qed

lemma round_even_of_int [simp]: "round_even (of_int n) = n"
  by (simp add: round_even_def)

lemma round_even_mono: "q \<le> r \<Longrightarrow> round_even q \<le> round_even r"
proof (rule ccontr)
  assume le: "q \<le> r" and "\<not> round_even q \<le> round_even r"
  then have "round_even r + 1 \<le> round_even q" by simp
  then have gap: "(of_int (round_even r) :: rat) + 1 \<le> of_int (round_even q)"
    by (metis of_int_1 of_int_add of_int_le_iff)
  from round_even_near [of q] round_even_near [of r] le gap
  have "q = r" by linarith
  with \<open>\<not> round_even q \<le> round_even r\<close> show False by simp
qed

lemma round_even_minus: "round_even (- q) = - round_even q"
proof (cases "q = of_int \<lfloor>q\<rfloor>")
  case True
  then obtain n where "q = of_int n" ..
  then have "- q = of_int (- n)" by simp
  then show ?thesis using \<open>q = of_int n\<close> by (metis round_even_of_int)
next
  case False
  then have fl: "\<lfloor>- q\<rfloor> = - \<lfloor>q\<rfloor> - 1"
    by (metis ceiling_altdef ceiling_def minus_diff_eq uminus_add_conv_diff minus_minus)
  have "of_int \<lfloor>q\<rfloor> \<le> q" "q < of_int \<lfloor>q\<rfloor> + 1" by linarith+
  then show ?thesis
    unfolding round_even_def Let_def fl by (auto simp: not_less)
qed


lemma find_exp_lower: "-126 \<le> find_exp n q"
  by (induction n) auto

lemma find_exp_upper: "find_exp n q \<le> int n - 126"
  by (induction n) auto

lemma find_exp_le: "-126 < find_exp n q \<Longrightarrow> 2 powi (find_exp n q) \<le> q"
  by (induction n) (auto split: if_splits)

lemma find_exp_greatest:
  "-126 \<le> e \<Longrightarrow> e \<le> int n - 126 \<Longrightarrow> 2 powi e \<le> q \<Longrightarrow> e \<le> find_exp n q"
proof (induction n)
  case 0
  then show ?case by simp
next
  case (Suc k)
  show ?case
  proof (cases "2 powi (int k - 125) \<le> q")
    case True
    with Suc.prems show ?thesis by simp
  next
    case False
    with Suc.prems have "e \<noteq> int k - 125" by auto
    with Suc.prems have "e \<le> int k - 126" by simp
    with Suc False show ?thesis by simp
  qed
qed

lemma f32_exponent_range: "-126 \<le> f32_exponent q" "f32_exponent q \<le> 127"
  using find_exp_lower [of 253 "\<bar>q\<bar>"] find_exp_upper [of 253 "\<bar>q\<bar>"]
  by (simp_all add: f32_exponent_def)

lemma f32_exponent_le: "-126 < f32_exponent q \<Longrightarrow> 2 powi (f32_exponent q) \<le> \<bar>q\<bar>"
  unfolding f32_exponent_def by (rule find_exp_le)

lemma f32_exponent_greatest:
  "-126 \<le> e \<Longrightarrow> e \<le> 127 \<Longrightarrow> 2 powi e \<le> \<bar>q\<bar> \<Longrightarrow> e \<le> f32_exponent q"
  unfolding f32_exponent_def by (rule find_exp_greatest) simp_all

lemma f32_exponent_less:
  assumes "f32_exponent q < 127"
  shows "\<bar>q\<bar> < 2 powi (f32_exponent q + 1)"
proof (rule ccontr)
  assume "\<not> \<bar>q\<bar> < 2 powi (f32_exponent q + 1)"
  then have "2 powi (f32_exponent q + 1) \<le> \<bar>q\<bar>" by simp
  with assms f32_exponent_range(1) [of q]
  have "f32_exponent q + 1 \<le> f32_exponent q"
    by (intro f32_exponent_greatest) simp_all
  then show False by simp
qed

lemma f32_exponent_eqI:
  assumes "-126 \<le> e" "e \<le> 127"
    and lo: "e = -126 \<or> 2 powi e \<le> \<bar>q\<bar>"
    and hi: "e = 127 \<or> \<bar>q\<bar> < 2 powi (e + 1)"
  shows "f32_exponent q = e"
proof (rule antisym)
  show "f32_exponent q \<le> e"
  proof (rule ccontr)
    assume "\<not> f32_exponent q \<le> e"
    then have gt: "e + 1 \<le> f32_exponent q" by simp
    with f32_exponent_range(2) [of q] hi have less: "\<bar>q\<bar> < 2 powi (e + 1)" by auto
    from gt assms(1) have "2 powi (f32_exponent q) \<le> \<bar>q\<bar>"
      by (intro f32_exponent_le) simp
    moreover from gt have "(2::rat) powi (e + 1) \<le> 2 powi (f32_exponent q)"
      by (intro power_int_increasing) simp_all
    ultimately show False using less by simp
  qed
next
  from lo show "e \<le> f32_exponent q"
  proof
    assume "e = -126"
    then show ?thesis using f32_exponent_range(1) [of q] by simp
  next
    assume "2 powi e \<le> \<bar>q\<bar>"
    with assms(1,2) show ?thesis by (rule f32_exponent_greatest)
  qed
qed

lemma f32_exponent_mono:
  assumes "\<bar>q\<bar> \<le> \<bar>r\<bar>"
  shows "f32_exponent q \<le> f32_exponent r"
proof (cases "-126 < f32_exponent q")
  case True
  then have "2 powi (f32_exponent q) \<le> \<bar>q\<bar>" by (rule f32_exponent_le)
  with assms have p: "2 powi (f32_exponent q) \<le> \<bar>r\<bar>" by (rule order_trans [rotated])
  show ?thesis
    by (rule f32_exponent_greatest [OF f32_exponent_range(1) f32_exponent_range(2) p])
next
  case False
  with f32_exponent_range(1) [of q] have "f32_exponent q = -126" by simp
  then show ?thesis using f32_exponent_range(1) [of r] by simp
qed

lemma f32_exponent_minus [simp]: "f32_exponent (- q) = f32_exponent q"
  by (simp add: f32_exponent_def)

lemma f32_ulp_pos: "0 < f32_ulp q"
  by (simp add: f32_ulp_def)

lemma f32_ulp_minus [simp]: "f32_ulp (- q) = f32_ulp q"
  by (simp add: f32_ulp_def)

lemma f32_minus: "f32 (- q) = - f32 q"
  by (simp add: f32_def round_even_minus)

lemma round_even_zero [simp]: "round_even 0 = 0"
  using round_even_of_int [of 0] by simp

lemma f32_zero [simp]: "f32 0 = 0"
  by (simp add: f32_def)

lemma round_even_nonneg: "0 \<le> q \<Longrightarrow> 0 \<le> round_even q"
  using round_even_mono [of 0 q] by (simp del: round_even_of_int)

lemma f32_nonneg: "0 \<le> q \<Longrightarrow> 0 \<le> f32 q"
  using f32_ulp_pos [of q] by (simp add: f32_def round_even_nonneg)

lemma ulp_times: "f32_ulp q * 2 ^ 23 = 2 powi (f32_exponent q)"
proof -
  have "(2::rat) powi (f32_exponent q - 23 + 23) = 2 powi (f32_exponent q - 23) * 2 powi 23"
    by (rule power_int_add) simp
  then show ?thesis by (simp add: f32_ulp_def)
qed

lemma f32_lower:
  assumes "0 \<le> q" "2 powi (f32_exponent q) \<le> q"
  shows "2 powi (f32_exponent q) \<le> f32 q"
proof -
  have "2 ^ 23 * f32_ulp q \<le> q" using assms(2) ulp_times [of q] by (simp add: mult.commute)
  then have "of_int (2 ^ 23) \<le> q / f32_ulp q"
    using f32_ulp_pos [of q] by (simp add: pos_le_divide_eq)
  then have "round_even (of_int (2 ^ 23)) \<le> round_even (q / f32_ulp q)"
    by (rule round_even_mono)
  then have "(2 ^ 23 :: rat) \<le> of_int (round_even (q / f32_ulp q))"
    by (simp only: round_even_of_int) (metis of_int_le_iff of_int_numeral of_int_power)
  then have "2 ^ 23 * f32_ulp q \<le> of_int (round_even (q / f32_ulp q)) * f32_ulp q"
    using f32_ulp_pos [of q] by simp
  then show ?thesis using ulp_times [of q] by (simp add: f32_def mult.commute)
qed

lemma f32_upper:
  assumes "q \<le> 2 powi (f32_exponent q + 1)"
  shows "f32 q \<le> 2 powi (f32_exponent q + 1)"
proof -
  have p: "(2::rat) powi (f32_exponent q + 1) = 2 powi (f32_exponent q) * 2"
    using power_int_add [of "2::rat" "f32_exponent q" 1] by simp
  then have p': "(2::rat) powi (f32_exponent q + 1) = 2 ^ 24 * f32_ulp q"
    using ulp_times [of q] by simp
  with assms have "q / f32_ulp q \<le> of_int (2 ^ 24)"
    using f32_ulp_pos [of q] by (simp add: pos_divide_le_eq)
  then have "round_even (q / f32_ulp q) \<le> round_even (of_int (2 ^ 24))"
    by (rule round_even_mono)
  then have "of_int (round_even (q / f32_ulp q)) \<le> (2 ^ 24 :: rat)"
    by (simp only: round_even_of_int) (metis of_int_le_iff of_int_numeral of_int_power)
  then have "of_int (round_even (q / f32_ulp q)) * f32_ulp q \<le> 2 ^ 24 * f32_ulp q"
    using f32_ulp_pos [of q] by simp
  then show ?thesis using p' by (simp add: f32_def)
qed

lemma f32_mono_nonneg:
  assumes "0 \<le> q" "q \<le> r"
  shows "f32 q \<le> f32 r"
proof -
  from assms have abs: "\<bar>q\<bar> \<le> \<bar>r\<bar>" by simp
  then have le: "f32_exponent q \<le> f32_exponent r" by (rule f32_exponent_mono)
  show ?thesis
  proof (cases "f32_exponent q = f32_exponent r")
    case True
    then have u: "f32_ulp q = f32_ulp r" by (simp add: f32_ulp_def)
    from assms(2) have "q / f32_ulp r \<le> r / f32_ulp r"
      using f32_ulp_pos [of r] by (simp add: divide_right_mono)
    then have "round_even (q / f32_ulp r) \<le> round_even (r / f32_ulp r)"
      by (rule round_even_mono)
    then show ?thesis using f32_ulp_pos [of r] by (simp add: f32_def u)
  next
    case False
    with le have lt: "f32_exponent q < f32_exponent r" by simp
    with f32_exponent_range(2) [of r] have "f32_exponent q < 127" by simp
    then have "\<bar>q\<bar> < 2 powi (f32_exponent q + 1)" by (rule f32_exponent_less)
    with assms(1) have "q \<le> 2 powi (f32_exponent q + 1)" by simp
    then have "f32 q \<le> 2 powi (f32_exponent q + 1)" by (rule f32_upper)
    also from lt have "(2::rat) powi (f32_exponent q + 1) \<le> 2 powi (f32_exponent r)"
      by (intro power_int_increasing) simp_all
    also have "2 powi (f32_exponent r) \<le> f32 r"
    proof (rule f32_lower)
      from assms show "0 \<le> r" by simp
      from lt f32_exponent_range(1) [of q] have "-126 < f32_exponent r" by simp
      then have "2 powi (f32_exponent r) \<le> \<bar>r\<bar>" by (rule f32_exponent_le)
      with \<open>0 \<le> r\<close> show "2 powi (f32_exponent r) \<le> r" by simp
    qed
    finally show ?thesis .
  qed
qed

lemma f32_mono:
  assumes "q \<le> r"
  shows "f32 q \<le> f32 r"
proof (cases "0 \<le> q")
  case True
  then show ?thesis using assms by (rule f32_mono_nonneg)
next
  case qneg: False
  show ?thesis
  proof (cases "0 \<le> r")
    case True
    then have "0 \<le> f32 r" by (rule f32_nonneg)
    moreover from qneg have "0 \<le> f32 (- q)" by (intro f32_nonneg) simp
    ultimately show ?thesis by (simp add: f32_minus)
  next
    case False
    with assms have "f32 (- r) \<le> f32 (- q)" by (intro f32_mono_nonneg) simp_all
    then show ?thesis by (simp add: f32_minus)
  qed
qed

lemma f32_eval:
  assumes "-126 \<le> e" "e \<le> 127"
    and "e = -126 \<or> 2 powi e \<le> \<bar>q\<bar>"
    and "e = 127 \<or> \<bar>q\<bar> < 2 powi (e + 1)"
  shows "f32 q = of_int (round_even (q / 2 powi (e - 23))) * 2 powi (e - 23)"
  using f32_exponent_eqI [OF assms] by (simp add: f32_def f32_ulp_def)

lemma round_even_divide:
  assumes "0 < b"
  shows "round_even (of_int a / of_int b) =
     (if 2 * (a mod b) < b then a div b else if b < 2 * (a mod b) then a div b + 1
      else if even (a div b) then a div b else a div b + 1)"
proof -
  have fl: "\<lfloor>(of_int a :: rat) / of_int b\<rfloor> = a div b"
    by (simp add: floor_divide_of_int_eq)
  have "(of_int a :: rat) = of_int (a div b) * of_int b + of_int (a mod b)"
    by (metis div_mult_mod_eq of_int_add of_int_mult)
  then have d: "(of_int a :: rat) / of_int b - of_int (a div b) = of_int (a mod b) / of_int b"
    using assms by (simp add: field_simps)
  have lt: "(of_int (a mod b) / of_int b < (1/2 :: rat)) = (2 * (a mod b) < b)"
  proof -
    have "(of_int (a mod b) / of_int b < (1/2 :: rat)) = ((of_int (2 * (a mod b)) :: rat) < of_int b)"
      using assms by (simp add: field_simps)
    then show ?thesis by (simp only: of_int_less_iff)
  qed
  have gt: "((1/2 :: rat) < of_int (a mod b) / of_int b) = (b < 2 * (a mod b))"
  proof -
    have "((1/2 :: rat) < of_int (a mod b) / of_int b) = ((of_int b :: rat) < of_int (2 * (a mod b)))"
      using assms by (simp add: field_simps)
    then show ?thesis by (simp only: of_int_less_iff)
  qed
  show ?thesis
    unfolding round_even_def Let_def fl d lt gt ..
qed

lemma round_even_numeral_divide:
  "round_even (numeral a / numeral b) =
     (if 2 * (numeral a mod numeral b) < (numeral b :: int) then numeral a div numeral b
      else if (numeral b :: int) < 2 * (numeral a mod numeral b) then numeral a div numeral b + 1
      else if even (numeral a div numeral b :: int) then numeral a div numeral b
      else numeral a div numeral b + 1)"
  using round_even_divide [of "numeral b" "numeral a"] by simp


section \<open>Representable values and the constants of the program\<close>

lemma round_even_numeral [simp]: "round_even (numeral n) = numeral n"
  using round_even_of_int [of "numeral n"] by simp

lemma round_even_one [simp]: "round_even 1 = 1"
  using round_even_of_int [of 1] by simp

text \<open>A significand below \<open>2 ^ 24\<close> with an exponent of at least \<open>-149\<close> is a float.\<close>

lemma f32_representable:
  assumes j: "-149 \<le> j" and m: "\<bar>m\<bar> < 2 ^ 24"
  shows "f32 (of_int m * 2 powi j) = of_int m * 2 powi j"
proof -
  define q :: rat where "q = of_int m * 2 powi j"
  define e where "e = f32_exponent q"
  have le: "e - 23 \<le> j"
  proof (cases "-126 < e")
    case False
    with j show ?thesis by simp
  next
    case True
    then have "2 powi e \<le> \<bar>q\<bar>" unfolding e_def by (rule f32_exponent_le)
    also have "\<bar>q\<bar> = of_int \<bar>m\<bar> * 2 powi j"
      by (simp add: q_def abs_mult)
    also have "\<dots> < of_int (2 ^ 24) * 2 powi j"
      using m by (intro mult_strict_right_mono) (simp_all only: of_int_less_iff zero_less_power_int zero_less_numeral)
    also have "\<dots> = 2 powi (24 + j)"
      using power_int_add [of "2::rat" 24 j] by simp
    finally have less: "(2::rat) powi e < 2 powi (24 + j)" .
    have "e < 24 + j"
    proof (rule ccontr)
      assume "\<not> e < 24 + j"
      then have "(2::rat) powi (24 + j) \<le> 2 powi e"
        by (intro power_int_increasing) simp_all
      with less show False by simp
    qed
    then show ?thesis by simp
  qed
  define k where "k = nat (j - (e - 23))"
  from le have jk: "j = (e - 23) + int k" by (simp add: k_def)
  have "(2::rat) powi j = 2 powi (e - 23) * 2 powi (int k)"
    unfolding jk by (rule power_int_add) simp
  then have split: "q = of_int (m * 2 ^ k) * 2 powi (e - 23)"
    by (simp add: q_def)
  have ulp: "f32_ulp q = 2 powi (e - 23)"
    by (simp add: f32_ulp_def e_def)
  have "of_int (m * 2 ^ k) * (2::rat) powi (e - 23) / 2 powi (e - 23) = of_int (m * 2 ^ k)"
    by simp
  then have "q / f32_ulp q = of_int (m * 2 ^ k)"
    by (simp only: ulp split [symmetric])
  then have "f32 q = of_int (m * 2 ^ k) * f32_ulp q"
    unfolding f32_def by (simp only: round_even_of_int)
  also have "\<dots> = q"
    by (simp only: ulp split [symmetric])
  finally show ?thesis by (simp only: q_def)
qed

lemma f32_of_nat_exact: "n < 2 ^ 24 \<Longrightarrow> f32 (of_nat n) = of_nat n"
  using f32_representable [of 0 "int n"] by simp

lemma f32_half_exact: "n < 2 ^ 23 \<Longrightarrow> f32 (1/2 + of_nat n) = 1/2 + of_nat n"
proof -
  assume "n < 2 ^ 23"
  then have "\<bar>int (2 * n + 1)\<bar> < 2 ^ 24" by simp
  with f32_representable [of "-1" "int (2 * n + 1)"]
  have "f32 (of_int (int (2 * n + 1)) * 2 powi (-1)) = of_int (int (2 * n + 1)) * 2 powi (-1)"
    by simp
  moreover have "(of_int (int (2 * n + 1)) :: rat) * 2 powi (-1) = 1/2 + of_nat n"
    by (simp add: power_int_minus field_simps)
  ultimately show ?thesis by (simp only:)
qed

lemma f32_one [simp]: "f32 1 = 1"
  using f32_representable [of 0 1] by simp

text \<open>\<^verbatim>\<open>0.05f\<close>, \<^verbatim>\<open>0.04f\<close>, their float sum, and \<^verbatim>\<open>0.09f\<close>.\<close>

lemma f32_0_05: "f32 (1/20) = 13421773 / 268435456"
  by (subst f32_eval [where e = "-5"]) (simp_all add: round_even_numeral_divide power_int_minus)

lemma f32_0_04: "f32 (1/25) = 5368709 / 134217728"
  by (subst f32_eval [where e = "-5"]) (simp_all add: round_even_numeral_divide power_int_minus)

lemma f32_0_09: "f32 (9/100) = 3019899 / 33554432"
  by (subst f32_eval [where e = "-4"]) (simp_all add: round_even_numeral_divide power_int_minus)

lemma f32_0_05_again: "f32 (13421773 / 268435456) = 13421773 / 268435456"
  using f32_representable [of "-28" 13421773] by (simp add: power_int_minus)

lemma f32_0_04_again: "f32 (5368709 / 134217728) = 5368709 / 134217728"
  using f32_representable [of "-27" 5368709] by (simp add: power_int_minus)

text \<open>
  \<^verbatim>\<open>0.05f + 0.04f\<close> is \<open>24159191 / 2 ^ 28\<close>, half way between two floats; the tie goes
  to the even significand, which is \<^verbatim>\<open>0.09f\<close>.
\<close>

lemma f32_0_05_plus_0_04: "f32 (24159191 / 268435456) = 3019899 / 33554432"
  by (subst f32_eval [where e = "-4"]) (simp_all add: round_even_numeral_divide power_int_minus)

text \<open>\<open>RAND_MAX\<close> of the C library of OS X, as a float: \<open>2 ^ 31 - 1\<close> rounds to \<open>2 ^ 31\<close>.\<close>

lemma f32_rand_max: "f32 2147483647 = 2147483648"
  by (subst f32_eval [where e = 30]) (simp_all add: round_even_numeral_divide)

lemma f32_tenth: "f32 (1/10) = 13421773 / 134217728"
  by (subst f32_eval [where e = "-4"]) (simp_all add: round_even_numeral_divide power_int_minus)

lemma f32_first_column: "f32 (120795955 / 134217728) = 7549747 / 8388608"
  by (subst f32_eval [where e = "-1"]) (simp_all add: round_even_numeral_divide power_int_minus)

lemma f32_three_tenths: "f32 (3/10) = 5033165 / 16777216"
  by (subst f32_eval [where e = "-2"]) (simp_all add: round_even_numeral_divide power_int_minus)


section \<open>The generator in closed form\<close>

declare column_loop.simps [simp del]
declare row_loop.simps [simp del]

lemma make_quad_snd: "snd (make_quad RAND_MAX rnd rows columns row column n) = n + 4"
  by (simp add: make_quad_def rand_def Let_def)

lemma column_loop_closed:
  "column \<le> columns \<Longrightarrow>
   column_loop RAND_MAX rnd rows columns row column quadData n =
     (quadData @ map (\<lambda>c. fst (make_quad RAND_MAX rnd rows columns row c (n + 4 * (c - column))))
                   [column..<columns],
      n + 4 * (columns - column))"
proof (induction RAND_MAX rnd rows columns row column quadData n rule: column_loop.induct)
  case (1 RAND_MAX rnd rows columns row column quadData n)
  show ?case
  proof (cases "column < columns")
    case False
    with "1.prems" have "column = columns" by simp
    then show ?thesis by (subst column_loop.simps) simp
  next
    case True
    obtain quad n' where mq: "make_quad RAND_MAX rnd rows columns row column n = (quad, n')"
      by (cases "make_quad RAND_MAX rnd rows columns row column n")
    with make_quad_snd [of RAND_MAX rnd rows columns row column n] have n': "n' = n + 4" by simp
    from True have "Suc column \<le> columns" by simp
    with "1.IH" [OF True mq [symmetric] refl]
    have step: "column_loop RAND_MAX rnd rows columns row (Suc column) (quadData @ [quad]) n' =
       ((quadData @ [quad]) @
          map (\<lambda>c. fst (make_quad RAND_MAX rnd rows columns row c (n' + 4 * (c - Suc column))))
            [Suc column..<columns],
        n' + 4 * (columns - Suc column))" by simp
    have same: "map (\<lambda>c. fst (make_quad RAND_MAX rnd rows columns row c (n' + 4 * (c - Suc column))))
                  [Suc column..<columns] =
                map (\<lambda>c. fst (make_quad RAND_MAX rnd rows columns row c (n + 4 * (c - column))))
                  [Suc column..<columns]"
    proof (rule map_cong [OF refl])
      fix c assume "c \<in> set [Suc column..<columns]"
      then have "n' + 4 * (c - Suc column) = n + 4 * (c - column)" using n' by auto
      then show "fst (make_quad RAND_MAX rnd rows columns row c (n' + 4 * (c - Suc column))) =
                 fst (make_quad RAND_MAX rnd rows columns row c (n + 4 * (c - column)))" by simp
    qed
    have upt: "[column..<columns] = column # [Suc column..<columns]"
      using True by (rule upt_conv_Cons)
    have cnt: "n' + 4 * (columns - Suc column) = n + 4 * (columns - column)"
      using True n' by simp
    have "column_loop RAND_MAX rnd rows columns row column quadData n =
          column_loop RAND_MAX rnd rows columns row (Suc column) (quadData @ [quad]) n'"
      using True mq by (subst column_loop.simps) simp
    also note step
    finally have res: "column_loop RAND_MAX rnd rows columns row column quadData n =
       ((quadData @ [quad]) @
          map (\<lambda>c. fst (make_quad RAND_MAX rnd rows columns row c (n' + 4 * (c - Suc column))))
            [Suc column..<columns],
        n' + 4 * (columns - Suc column))" .
    have q: "fst (make_quad RAND_MAX rnd rows columns row column n) = quad" using mq by simp
    show ?thesis unfolding res same cnt upt by (simp add: q)
  qed
qed

lemma row_loop_closed:
  "row \<le> rows \<Longrightarrow>
   row_loop RAND_MAX rnd rows columns row quadData n =
     (quadData @ concat (map (\<lambda>r. map (\<lambda>c. fst (make_quad RAND_MAX rnd rows columns r c
                                                  (n + 4 * ((r - row) * columns + c))))
                                      [0..<columns])
                             [row..<rows]),
      n + 4 * ((rows - row) * columns))"
proof (induction RAND_MAX rnd rows columns row quadData n rule: row_loop.induct)
  case (1 RAND_MAX rnd rows columns row quadData n)
  show ?case
  proof (cases "row < rows")
    case False
    with "1.prems" have "row = rows" by simp
    then show ?thesis by (subst row_loop.simps) simp
  next
    case True
    define line where "line = map (\<lambda>c. fst (make_quad RAND_MAX rnd rows columns row c (n + 4 * c)))
                                [0..<columns]"
    have cl: "column_loop RAND_MAX rnd rows columns row 0 quadData n =
                (quadData @ line, n + 4 * columns)"
      using column_loop_closed [of 0 columns RAND_MAX rnd rows row quadData n]
      by (simp add: line_def)
    from True have "Suc row \<le> rows" by simp
    with "1.IH" [OF True cl [symmetric] refl]
    have step: "row_loop RAND_MAX rnd rows columns (Suc row) (quadData @ line) (n + 4 * columns) =
      ((quadData @ line) @
         concat (map (\<lambda>r. map (\<lambda>c. fst (make_quad RAND_MAX rnd rows columns r c
                               (n + 4 * columns + 4 * ((r - Suc row) * columns + c))))
                             [0..<columns])
                    [Suc row..<rows]),
       n + 4 * columns + 4 * ((rows - Suc row) * columns))" by simp
    have same: "map (\<lambda>r. map (\<lambda>c. fst (make_quad RAND_MAX rnd rows columns r c
                               (n + 4 * columns + 4 * ((r - Suc row) * columns + c))))
                             [0..<columns])
                    [Suc row..<rows] =
                map (\<lambda>r. map (\<lambda>c. fst (make_quad RAND_MAX rnd rows columns r c
                               (n + 4 * ((r - row) * columns + c))))
                             [0..<columns])
                    [Suc row..<rows]"
    proof (rule map_cong [OF refl])
      fix r assume "r \<in> set [Suc row..<rows]"
      then have "r - row = Suc (r - Suc row)" by auto
      then have eq: "\<And>c. n + 4 * columns + 4 * ((r - Suc row) * columns + c) =
                     n + 4 * ((r - row) * columns + c)" by (simp add: algebra_simps)
      show "map (\<lambda>c. fst (make_quad RAND_MAX rnd rows columns r c
                               (n + 4 * columns + 4 * ((r - Suc row) * columns + c))))
                   [0..<columns] =
                 map (\<lambda>c. fst (make_quad RAND_MAX rnd rows columns r c
                               (n + 4 * ((r - row) * columns + c))))
                   [0..<columns]" by (simp only: eq)
    qed
    have upt: "[row..<rows] = row # [Suc row..<rows]"
      using True by (rule upt_conv_Cons)
    have "rows - row = Suc (rows - Suc row)" using True by simp
    then have cnt: "n + 4 * columns + 4 * ((rows - Suc row) * columns) =
                    n + 4 * ((rows - row) * columns)" by (simp add: algebra_simps)
    have "row_loop RAND_MAX rnd rows columns row quadData n =
          row_loop RAND_MAX rnd rows columns (Suc row) (quadData @ line) (n + 4 * columns)"
      using True cl by (subst row_loop.simps) simp
    also note step
    finally have res: "row_loop RAND_MAX rnd rows columns row quadData n =
      ((quadData @ line) @
         concat (map (\<lambda>r. map (\<lambda>c. fst (make_quad RAND_MAX rnd rows columns r c
                               (n + 4 * columns + 4 * ((r - Suc row) * columns + c))))
                             [0..<columns])
                    [Suc row..<rows]),
       n + 4 * columns + 4 * ((rows - Suc row) * columns))" .
    show ?thesis unfolding res same cnt upt by (simp add: line_def)
  qed
qed

lemma length_concat_rows:
  "length (concat (map (\<lambda>r. map (f r) [0..<columns]) [0..<rows])) = rows * columns"
  by (induction rows) simp_all

lemma nth_concat_rows:
  "row < rows \<Longrightarrow> column < columns \<Longrightarrow>
   concat (map (\<lambda>r. map (f r) [0..<columns]) [0..<rows]) ! (row * columns + column) = f row column"
proof (induction rows)
  case 0
  then show ?case by simp
next
  case (Suc rows)
  show ?case
  proof (cases "row < rows")
    case True
    then have "Suc row \<le> rows" by simp
    then have "Suc row * columns \<le> rows * columns" by (rule mult_le_mono1)
    with Suc.prems have "row * columns + column < rows * columns" by simp
    with Suc.IH [OF True Suc.prems(2)] show ?thesis
      by (simp add: nth_append length_concat_rows)
  next
    case False
    with Suc.prems have "row = rows" by simp
    with Suc.prems show ?thesis by (simp add: nth_append length_concat_rows)
  qed
qed

lemma generate_grid_closed:
  "generate_grid RAND_MAX rnd rows columns =
     (concat (map (\<lambda>r. map (\<lambda>c. fst (make_quad RAND_MAX rnd rows columns r c
                                        (4 * (r * columns + c))))
                            [0..<columns])
                   [0..<rows]),
      4 * (rows * columns))"
  using row_loop_closed [of 0 rows RAND_MAX rnd columns "[]" 0]
  by (simp add: generate_grid_def)

lemma generate_grid_length:
  "length (fst (generate_grid RAND_MAX rnd rows columns)) = rows * columns"
  by (simp add: generate_grid_closed length_concat_rows)

lemma generate_grid_nth:
  "row < rows \<Longrightarrow> column < columns \<Longrightarrow>
   fst (generate_grid RAND_MAX rnd rows columns) ! (row * columns + column) =
     fst (make_quad RAND_MAX rnd rows columns row column (4 * (row * columns + column)))"
  by (simp add: generate_grid_closed nth_concat_rows)


section \<open>Properties of the generated records\<close>

lemma f32_numeral_exact: "numeral n < (2 ^ 24 :: nat) \<Longrightarrow> f32 (numeral n) = numeral n"
  using f32_of_nat_exact [of "numeral n"] by simp

lemma f32_half: "f32 (1/2) = 1/2"
  using f32_representable [of "-1" 1] by (simp add: power_int_minus)

lemma f32_three_halves: "f32 (3/2) = 3/2"
  using f32_representable [of "-1" 3] by (simp add: power_int_minus)

lemma f32_five_halves: "f32 (5/2) = 5/2"
  using f32_representable [of "-1" 5] by (simp add: power_int_minus)

lemma make_quad_position:
  "quad_x (fst (make_quad RAND_MAX rnd rows columns row column n)) =
     f32 (f32 (f32 (2 * f32 (1/2 + f32 (of_nat column))) / f32 (of_nat columns)) - 1)"
  "quad_y (fst (make_quad RAND_MAX rnd rows columns row column n)) =
     f32 (f32 (f32 (2 * f32 (1/2 + f32 (of_nat row))) / f32 (of_nat rows)) - 1)"
  by (simp_all add: make_quad_def rand_def Let_def fadd_def fsub_def fmul_def fdiv_def
      float_of_nat_def)

lemma make_quad_size:
  "quad_size (fst (make_quad RAND_MAX rnd rows columns row column n)) =
     f32 (f32 (1/20) + f32 (f32 (f32 (of_nat (rnd n)) / f32 (of_nat RAND_MAX)) * f32 (1/25)))"
  by (simp add: make_quad_def rand_def Let_def fadd_def fmul_def fdiv_def float_of_nat_def)

lemma make_quad_color:
  "quad_r (fst (make_quad RAND_MAX rnd rows columns row column n)) = of_nat (96 + rnd (n + 1) mod 128)"
  "quad_g (fst (make_quad RAND_MAX rnd rows columns row column n)) = of_nat (96 + rnd (n + 2) mod 128)"
  "quad_b (fst (make_quad RAND_MAX rnd rows columns row column n)) = of_nat (96 + rnd (n + 3) mod 128)"
  "quad_a (fst (make_quad RAND_MAX rnd rows columns row column n)) = 255"
  by (simp_all add: make_quad_def rand_def Let_def numeral_3_eq_3)

lemma generate_grid_set:
  assumes "q \<in> set (fst (generate_grid RAND_MAX rnd rows columns))"
  obtains row column where "row < rows" "column < columns"
    "q = fst (make_quad RAND_MAX rnd rows columns row column (4 * (row * columns + column)))"
  using assms by (auto simp: generate_grid_closed)

text \<open>
  C1 (as the code has it). A grid of \<open>rows \<times> columns\<close> cells gives \<open>rows * columns\<close>
  records in row-major order: the record of the cell \<open>(row, column)\<close> is at the index
  \<open>row * columns + column\<close>. Its position is the formula \<open>2 * (0.5 + c) / C - 1\<close>
  evaluated in single precision, every operation and the conversions of \<open>c\<close> and \<open>C\<close>
  rounded to the nearest float, and it is the same whatever \<^verbatim>\<open>rand()\<close> returns.
\<close>

theorem grid_layout:
  assumes "row < rows" and "column < columns"
  shows "length (fst (generate_grid RAND_MAX rnd rows columns)) = rows * columns \<and>
    quad_x (fst (generate_grid RAND_MAX rnd rows columns) ! (row * columns + column)) =
      f32 (f32 (f32 (2 * f32 (1/2 + f32 (of_nat column))) / f32 (of_nat columns)) - 1) \<and>
    quad_y (fst (generate_grid RAND_MAX rnd rows columns) ! (row * columns + column)) =
      f32 (f32 (f32 (2 * f32 (1/2 + f32 (of_nat row))) / f32 (of_nat rows)) - 1) \<and>
    quad_x (fst (generate_grid RAND_MAX' rnd' rows columns) ! (row * columns + column)) =
      quad_x (fst (generate_grid RAND_MAX rnd rows columns) ! (row * columns + column)) \<and>
    quad_y (fst (generate_grid RAND_MAX' rnd' rows columns) ! (row * columns + column)) =
      quad_y (fst (generate_grid RAND_MAX rnd rows columns) ! (row * columns + column))"
  using assms by (simp add: generate_grid_length generate_grid_nth make_quad_position)

theorem grid_layout_witness:
  "(1::nat) < kRows \<and> (2::nat) < kColumns \<and>
   length (fst (generate_grid 2147483647 (always 0) kRows kColumns)) = 100 \<and>
   quad_x (fst (generate_grid 2147483647 (always 0) kRows kColumns) ! 12) = - (1/2) \<and>
   quad_y (fst (generate_grid 2147483647 (always 0) kRows kColumns) ! 12) =
     - (11744051 / 16777216) \<and>
   quad_x (fst (generate_grid 32767 (counting 400) kRows kColumns) ! 12) =
     quad_x (fst (generate_grid 2147483647 (always 0) kRows kColumns) ! 12) \<and>
   quad_y (fst (generate_grid 32767 (counting 400) kRows kColumns) ! 12) =
     quad_y (fst (generate_grid 2147483647 (always 0) kRows kColumns) ! 12)"
proof -
  have r: "(1::nat) < kRows" and c: "(2::nat) < kColumns"
    by (simp_all add: kRows_def kColumns_def)
  have f: "f32 (11744051 / 16777216) = 11744051 / 16777216"
    using f32_representable [of "-24" 11744051] by (simp add: power_int_minus)
  have i: "1 * kColumns + 2 = 12" by (simp add: kColumns_def)
  from grid_layout [OF r c, of 2147483647 "always 0" 32767 "counting 400"] r c
  show ?thesis
    unfolding i
    by (simp add: kRows_def kColumns_def f32_numeral_exact f32_half f32_three_halves
        f32_five_halves f32_three_tenths f32_minus f)
qed

text \<open>
  C1 as the specification words it, with the formula read over the exact numbers, fails:
  in the grid of the program the first record has \<open>x = -7549747 / 2 ^ 23\<close>, the float
  next to \<open>-9/10\<close>, which no binary float equals.
\<close>

theorem grid_position_not_exact:
  "quad_x (fst (generate_grid 2147483647 (always 0) kRows kColumns) ! (0 * kColumns + 0)) \<noteq>
     2 * (1/2 + of_nat 0) / of_nat kColumns - 1"
proof -
  have "quad_x (fst (generate_grid 2147483647 (always 0) kRows kColumns) ! (0 * kColumns + 0)) =
      - (7549747 / 8388608)"
    by (subst generate_grid_nth)
      (simp_all add: kRows_def kColumns_def make_quad_position f32_numeral_exact f32_half
        f32_tenth f32_minus f32_first_column)
  then show ?thesis by (simp add: kColumns_def)
qed


lemma size_bounds:
  assumes M: "0 < RAND_MAX" and v: "v \<le> RAND_MAX"
  shows "f32 (1/20) \<le>
           f32 (f32 (1/20) + f32 (f32 (f32 (of_nat v) / f32 (of_nat RAND_MAX)) * f32 (1/25)))"
    and "f32 (f32 (1/20) + f32 (f32 (f32 (of_nat v) / f32 (of_nat RAND_MAX)) * f32 (1/25))) \<le>
           f32 (9/100)"
proof -
  define a where "a = f32 (of_nat v)"
  define b where "b = f32 (of_nat RAND_MAX)"
  define d where "d = f32 (a / b)"
  define m where "m = f32 (d * f32 (1/25))"
  have a0: "0 \<le> a" unfolding a_def by (rule f32_nonneg) simp
  have ab: "a \<le> b" unfolding a_def b_def using v by (intro f32_mono) simp
  have "f32 1 \<le> b" unfolding b_def using M by (intro f32_mono) simp
  then have b1: "1 \<le> b" by simp
  from a0 b1 have r0: "0 \<le> a / b" by simp
  from ab b1 have r1: "a / b \<le> 1" by simp
  have d0: "0 \<le> d" unfolding d_def using r0 by (rule f32_nonneg)
  have "d \<le> f32 1" unfolding d_def using r1 by (rule f32_mono)
  then have d1: "d \<le> 1" by simp
  from d0 have p0: "0 \<le> d * f32 (1/25)" by (simp add: f32_0_04)
  from d1 have p1: "d * f32 (1/25) \<le> 5368709 / 134217728" by (simp add: f32_0_04)
  have m0: "0 \<le> m" unfolding m_def using p0 by (rule f32_nonneg)
  have "m \<le> f32 (5368709 / 134217728)" unfolding m_def using p1 by (rule f32_mono)
  then have m1: "m \<le> 5368709 / 134217728" by (simp only: f32_0_04_again)
  have "f32 (f32 (1/20)) \<le> f32 (f32 (1/20) + m)"
    using m0 by (intro f32_mono) simp
  then show "f32 (1/20) \<le>
      f32 (f32 (1/20) + f32 (f32 (f32 (of_nat v) / f32 (of_nat RAND_MAX)) * f32 (1/25)))"
    by (simp only: f32_0_05 f32_0_05_again m_def d_def a_def b_def)
  have "f32 (f32 (1/20) + m) \<le> f32 (24159191 / 268435456)"
    using m1 by (intro f32_mono) (simp add: f32_0_05)
  then show "f32 (f32 (1/20) + f32 (f32 (f32 (of_nat v) / f32 (of_nat RAND_MAX)) * f32 (1/25))) \<le>
      f32 (9/100)"
    by (simp only: f32_0_05_plus_0_04 f32_0_09 m_def d_def a_def b_def)
qed

text \<open>
  C3 (as the code has it). \<^verbatim>\<open>rand()\<close> may return \<^verbatim>\<open>RAND_MAX\<close> itself, so the quotient
  reaches \<open>1\<close> and the interval is closed: every size is at least \<open>0.05\<close> and at most
  \<^verbatim>\<open>0.09f\<close>, the float nearest \<open>0.09\<close> (\<open>3019899 / 2 ^ 25\<close>, a little above \<open>0.09\<close>),
  for every random source within the library's range.
\<close>

theorem size_range:
  assumes "0 < RAND_MAX" and "\<forall>k. rnd k \<le> RAND_MAX"
    and "q \<in> set (fst (generate_grid RAND_MAX rnd rows columns))"
  shows "1/20 \<le> quad_size q \<and> quad_size q \<le> f32 (9/100)"
proof -
  from assms(3) obtain row column where
    q: "q = fst (make_quad RAND_MAX rnd rows columns row column (4 * (row * columns + column)))"
    by (rule generate_grid_set)
  from assms(2) have v: "rnd (4 * (row * columns + column)) \<le> RAND_MAX" by simp
  have "(1/20 :: rat) \<le> f32 (1/20)" by (simp add: f32_0_05)
  with size_bounds [OF assms(1) v] show ?thesis
    unfolding q make_quad_size by simp
qed

theorem size_range_witness:
  "(0::nat) < 2147483647 \<and> (\<forall>k. always 0 k \<le> 2147483647) \<and>
   fst (generate_grid 2147483647 (always 0) kRows kColumns) ! 0
     \<in> set (fst (generate_grid 2147483647 (always 0) kRows kColumns)) \<and>
   quad_size (fst (generate_grid 2147483647 (always 0) kRows kColumns) ! 0) =
     13421773 / 268435456 \<and>
   (1/20 :: rat) \<le> 13421773 / 268435456 \<and> 13421773 / 268435456 \<le> f32 (9/100)"
proof -
  have M: "(0::nat) < 2147483647" by simp
  have r: "\<forall>k. always 0 k \<le> 2147483647" by (simp add: always_def)
  have mem: "fst (generate_grid 2147483647 (always 0) kRows kColumns) ! 0
      \<in> set (fst (generate_grid 2147483647 (always 0) kRows kColumns))"
    by (rule nth_mem) (simp add: generate_grid_length kRows_def kColumns_def)
  have "fst (generate_grid 2147483647 (always 0) kRows kColumns) ! (0 * kColumns + 0) =
      fst (make_quad 2147483647 (always 0) kRows kColumns 0 0 (4 * (0 * kColumns + 0)))"
    by (rule generate_grid_nth) (simp_all add: kRows_def kColumns_def)
  then have val: "quad_size (fst (generate_grid 2147483647 (always 0) kRows kColumns) ! 0) =
      13421773 / 268435456"
    by (simp add: make_quad_size always_def f32_0_05 f32_0_05_again)
  from size_range [OF M r mem] M r mem val show ?thesis by simp
qed

text \<open>
  C3 as the specification words it, with the interval open at \<open>0.09\<close>, fails when
  \<^verbatim>\<open>rand()\<close> returns \<^verbatim>\<open>RAND_MAX\<close> (here the \<open>2 ^ 31 - 1\<close> of OS X): the size is
  \<^verbatim>\<open>0.05f + 1.0f * 0.04f\<close>, which is \<^verbatim>\<open>0.09f\<close>.
\<close>

theorem size_reaches_upper_end:
  "\<not> quad_size (fst (generate_grid 2147483647 (always 2147483647) kRows kColumns) ! 0) < 9/100"
proof -
  have "fst (generate_grid 2147483647 (always 2147483647) kRows kColumns) ! (0 * kColumns + 0) =
      fst (make_quad 2147483647 (always 2147483647) kRows kColumns 0 0 (4 * (0 * kColumns + 0)))"
    by (rule generate_grid_nth) (simp_all add: kRows_def kColumns_def)
  then have "quad_size (fst (generate_grid 2147483647 (always 2147483647) kRows kColumns) ! 0) =
      3019899 / 33554432"
    by (simp add: make_quad_size always_def f32_0_05 f32_0_04 f32_rand_max f32_0_04_again
        f32_0_05_plus_0_04)
  then show ?thesis by simp
qed

lemma coordinate_bounds:
  assumes k: "k < n" and n: "n \<le> 2 ^ 23"
  shows "-1 < f32 (f32 (f32 (2 * f32 (1/2 + f32 (of_nat k))) / f32 (of_nat n)) - 1)"
    and "f32 (f32 (f32 (2 * f32 (1/2 + f32 (of_nat k))) / f32 (of_nat n)) - 1) < 1"
proof -
  from k n have k23: "k < 2 ^ 23" by simp
  then have k24: "k < 2 ^ 24" by simp
  from n have n24: "n < 2 ^ 24" by simp
  from k23 have odd24: "2 * k + 1 < 2 ^ 24" by simp
  define r :: rat where "r = of_nat (2 * k + 1) / of_nat n"
  have "2 * f32 (1/2 + f32 (of_nat k)) = of_nat (2 * k + 1)"
    by (simp add: f32_of_nat_exact [OF k24] f32_half_exact [OF k23])
  then have num: "f32 (2 * f32 (1/2 + f32 (of_nat k))) = of_nat (2 * k + 1)"
    using f32_of_nat_exact [OF odd24] by (simp only:)
  have inner: "f32 (f32 (2 * f32 (1/2 + f32 (of_nat k))) / f32 (of_nat n)) = f32 r"
    by (simp only: num f32_of_nat_exact [OF n24] r_def)
  from k have npos: "(0::rat) < of_nat n" by simp
  have lo_exact: "f32 (1 / 8388608) = 1 / 8388608"
    using f32_representable [of "-23" 1] by (simp add: power_int_minus)
  have hi_exact: "f32 (16777215 / 8388608) = 16777215 / 8388608"
    using f32_representable [of "-23" 16777215] by (simp add: power_int_minus)
  have edge_exact: "f32 (8388607 / 8388608) = 8388607 / 8388608"
    using f32_representable [of "-23" 8388607] by (simp add: power_int_minus)
  have "(of_nat n :: rat) \<le> of_nat (2 ^ 23)" using n by (simp only: of_nat_le_iff)
  then have n_le: "(of_nat n :: rat) \<le> 8388608" by simp
  have r_lo: "1 / 8388608 \<le> r"
  proof -
    have "(1::rat) / 8388608 \<le> 1 / of_nat n"
      using npos n_le by (simp add: field_simps)
    also have "\<dots> \<le> r"
      unfolding r_def using npos by (intro divide_right_mono) simp_all
    finally show ?thesis .
  qed
  have r_hi: "r \<le> 16777215 / 8388608"
  proof -
    from k have "2 * k + 1 \<le> 2 * n - 1" by simp
    then have "(of_nat (2 * k + 1) :: rat) \<le> of_nat (2 * n - 1)" by (simp only: of_nat_le_iff)
    also have "(of_nat (2 * n - 1) :: rat) = 2 * of_nat n - 1"
      using k by simp
    finally have "r \<le> (2 * of_nat n - 1) / of_nat n"
      unfolding r_def using npos by (intro divide_right_mono) simp_all
    also have "\<dots> = 2 - 1 / of_nat n" using npos by (simp add: field_simps)
    also have "\<dots> \<le> 2 - 1 / 8388608"
      using npos n_le by (simp add: field_simps)
    finally show ?thesis by simp
  qed
  have d_lo: "1 / 8388608 \<le> f32 r"
    using f32_mono [OF r_lo] by (simp only: lo_exact)
  have d_hi: "f32 r \<le> 16777215 / 8388608"
    using f32_mono [OF r_hi] by (simp only: hi_exact)
  from d_lo have "- (8388607 / 8388608) \<le> f32 r - 1" by simp
  then have "f32 (- (8388607 / 8388608)) \<le> f32 (f32 r - 1)" by (rule f32_mono)
  then have "- (8388607 / 8388608) \<le> f32 (f32 r - 1)"
    by (simp only: f32_minus edge_exact)
  then show "-1 < f32 (f32 (f32 (2 * f32 (1/2 + f32 (of_nat k))) / f32 (of_nat n)) - 1)"
    unfolding inner by simp
  from d_hi have "f32 r - 1 \<le> 8388607 / 8388608" by simp
  then have "f32 (f32 r - 1) \<le> f32 (8388607 / 8388608)" by (rule f32_mono)
  then have "f32 (f32 r - 1) \<le> 8388607 / 8388608" by (simp only: edge_exact)
  then show "f32 (f32 (f32 (2 * f32 (1/2 + f32 (of_nat k))) / f32 (of_nat n)) - 1) < 1"
    unfolding inner by simp
qed

lemma channel_range:
  "96 \<le> unat (of_nat (96 + v mod 128) :: 8 word)"
  "unat (of_nat (96 + v mod 128) :: 8 word) \<le> 223"
proof -
  have "v mod 128 < 128" by simp
  then have "96 + v mod 128 < 2 ^ LENGTH(8)" by simp
  then have "unat (of_nat (96 + v mod 128) :: 8 word) = 96 + v mod 128"
    by (simp only: unat_of_nat mod_less)
  moreover have "v mod 128 \<le> 127" using \<open>v mod 128 < 128\<close> by simp
  ultimately show "96 \<le> unat (of_nat (96 + v mod 128) :: 8 word)"
    "unat (of_nat (96 + v mod 128) :: 8 word) \<le> 223" by simp_all
qed

text \<open>
  Colours and positions on any grid of up to \<open>2 ^ 23\<close> cells a side: below that size
  \<open>0.5 + c\<close> and \<open>2 * (0.5 + c)\<close> are computed without rounding, the quotient lies
  between \<open>2 powi (-23)\<close> and \<open>2 - 2 powi (-23)\<close>, and so does its float.
\<close>

lemma ranges_on_grid:
  assumes "rows \<le> 2 ^ 23" and "columns \<le> 2 ^ 23"
    and "q \<in> set (fst (generate_grid RAND_MAX rnd rows columns))"
  shows "96 \<le> unat (quad_r q) \<and> unat (quad_r q) \<le> 223 \<and>
         96 \<le> unat (quad_g q) \<and> unat (quad_g q) \<le> 223 \<and>
         96 \<le> unat (quad_b q) \<and> unat (quad_b q) \<le> 223 \<and>
         quad_a q = 255 \<and>
         -1 < quad_x q \<and> quad_x q < 1 \<and> -1 < quad_y q \<and> quad_y q < 1"
proof -
  from assms(3) obtain row column where rc: "row < rows" "column < columns" and
    q: "q = fst (make_quad RAND_MAX rnd rows columns row column (4 * (row * columns + column)))"
    by (rule generate_grid_set)
  show ?thesis
    unfolding q make_quad_position make_quad_color
    using channel_range coordinate_bounds [OF rc(1) assms(1)] coordinate_bounds [OF rc(2) assms(2)]
    by simp
qed

text \<open>
  C4. Every record that the program generates, on its grid of \<open>kRows \<times> kColumns\<close>
  cells, has its three colour channels in \<open>[96, 223]\<close>, opacity \<open>255\<close>, and both position
  components strictly between \<open>-1\<close> and \<open>1\<close>, whatever \<^verbatim>\<open>rand()\<close> returns.
\<close>

theorem color_and_position_ranges:
  assumes "q \<in> set (fst (generate_grid RAND_MAX rnd kRows kColumns))"
  shows "96 \<le> unat (quad_r q) \<and> unat (quad_r q) \<le> 223 \<and>
         96 \<le> unat (quad_g q) \<and> unat (quad_g q) \<le> 223 \<and>
         96 \<le> unat (quad_b q) \<and> unat (quad_b q) \<le> 223 \<and>
         quad_a q = 255 \<and>
         -1 < quad_x q \<and> quad_x q < 1 \<and> -1 < quad_y q \<and> quad_y q < 1"
proof -
  have "kRows \<le> 2 ^ 23" and "kColumns \<le> 2 ^ 23"
    by (simp_all add: kRows_def kColumns_def)
  then show ?thesis using assms by (rule ranges_on_grid)
qed

theorem color_and_position_ranges_witness:
  "fst (generate_grid 2147483647 (counting 400) kRows kColumns) ! 12
     \<in> set (fst (generate_grid 2147483647 (counting 400) kRows kColumns)) \<and>
   unat (quad_r (fst (generate_grid 2147483647 (counting 400) kRows kColumns) ! 12)) = 145 \<and>
   unat (quad_g (fst (generate_grid 2147483647 (counting 400) kRows kColumns) ! 12)) = 146 \<and>
   unat (quad_b (fst (generate_grid 2147483647 (counting 400) kRows kColumns) ! 12)) = 147 \<and>
   quad_a (fst (generate_grid 2147483647 (counting 400) kRows kColumns) ! 12) = 255 \<and>
   quad_x (fst (generate_grid 2147483647 (counting 400) kRows kColumns) ! 12) = - (1/2) \<and>
   quad_y (fst (generate_grid 2147483647 (counting 400) kRows kColumns) ! 12) =
     - (11744051 / 16777216) \<and>
   (-1 :: rat) < - (1/2) \<and> - (1/2) < (1 :: rat) \<and>
   (-1 :: rat) < - (11744051 / 16777216) \<and> - (11744051 / 16777216) < (1 :: rat)"
proof -
  have mem: "fst (generate_grid 2147483647 (counting 400) kRows kColumns) ! 12
      \<in> set (fst (generate_grid 2147483647 (counting 400) kRows kColumns))"
    by (rule nth_mem) (simp add: generate_grid_length kRows_def kColumns_def)
  have "fst (generate_grid 2147483647 (counting 400) kRows kColumns) ! (1 * kColumns + 2) =
      fst (make_quad 2147483647 (counting 400) kRows kColumns 1 2 (4 * (1 * kColumns + 2)))"
    by (rule generate_grid_nth) (simp_all add: kRows_def kColumns_def)
  then have cell: "fst (generate_grid 2147483647 (counting 400) kRows kColumns) ! 12 =
      fst (make_quad 2147483647 (counting 400) kRows kColumns 1 2 48)"
    by (simp add: kColumns_def)
  have col: "unat (quad_r (fst (generate_grid 2147483647 (counting 400) kRows kColumns) ! 12)) = 145"
    "unat (quad_g (fst (generate_grid 2147483647 (counting 400) kRows kColumns) ! 12)) = 146"
    "unat (quad_b (fst (generate_grid 2147483647 (counting 400) kRows kColumns) ! 12)) = 147"
    unfolding cell make_quad_color counting_def by simp_all
  have f: "f32 (11744051 / 16777216) = 11744051 / 16777216"
    using f32_representable [of "-24" 11744051] by (simp add: power_int_minus)
  have pos: "quad_x (fst (generate_grid 2147483647 (counting 400) kRows kColumns) ! 12) = - (1/2)"
    "quad_y (fst (generate_grid 2147483647 (counting 400) kRows kColumns) ! 12) =
       - (11744051 / 16777216)"
    unfolding cell make_quad_position
    by (simp_all add: kRows_def kColumns_def f32_numeral_exact f32_half f32_three_halves
        f32_five_halves f32_three_tenths f32_minus f)
  from color_and_position_ranges [OF mem] mem col pos show ?thesis by simp
qed

text \<open>
  Some bound on the grid is needed for the positions: with \<open>2 ^ 25\<close> columns the quotient of the first
  column, \<open>2 powi (-25)\<close>, is lost when \<open>1\<close> is subtracted, and \<open>x\<close> is \<open>-1\<close>.
\<close>

lemma wide_grid_reaches_edge:
  "quad_x (fst (generate_grid RAND_MAX rnd 1 33554432) ! (0 * 33554432 + 0)) = -1"
proof -
  have big: "f32 33554432 = 33554432"
    using f32_representable [of 25 1] by simp
  have small: "f32 (1 / 33554432) = 1 / 33554432"
    using f32_representable [of "-25" 1] by (simp add: power_int_minus)
  have tie: "f32 (33554431 / 33554432) = 1"
    by (subst f32_eval [where e = "-1"]) (simp_all add: round_even_numeral_divide power_int_minus)
  show ?thesis
    by (subst generate_grid_nth)
      (simp_all add: make_quad_position f32_half big small tie f32_minus)
qed

lemma make_quad_cong:
  assumes "rnd' n = rnd n" "rnd' (n + 1) = rnd (n + 1)" "rnd' (n + 2) = rnd (n + 2)"
    "rnd' (n + 3) = rnd (n + 3)"
  shows "fst (make_quad RAND_MAX rnd' rows columns row column n) =
         fst (make_quad RAND_MAX rnd rows columns row column n)"
  using assms by (simp add: make_quad_def rand_def Let_def numeral_3_eq_3)

lemma cell_draws_in_range:
  fixes row rows column columns :: nat
  assumes "row < rows" "column < columns"
  shows "4 * (row * columns + column) + 3 < 4 * (rows * columns)"
proof -
  from assms(1) have "Suc row \<le> rows" by simp
  then have "Suc row * columns \<le> rows * columns" by (rule mult_le_mono1)
  with assms(2) have "row * columns + column < rows * columns" by simp
  then show ?thesis by simp
qed

lemma generate_grid_cong:
  assumes "\<forall>k < 4 * (rows * columns). rnd' k = rnd k"
  shows "generate_grid RAND_MAX rnd' rows columns = generate_grid RAND_MAX rnd rows columns"
proof -
  have "fst (make_quad RAND_MAX rnd' rows columns r c (4 * (r * columns + c))) =
        fst (make_quad RAND_MAX rnd rows columns r c (4 * (r * columns + c)))"
    if "r < rows" "c < columns" for r c
  proof (rule make_quad_cong)
    from cell_draws_in_range [OF that] assms
    show "rnd' (4 * (r * columns + c)) = rnd (4 * (r * columns + c))"
      "rnd' (4 * (r * columns + c) + 1) = rnd (4 * (r * columns + c) + 1)"
      "rnd' (4 * (r * columns + c) + 2) = rnd (4 * (r * columns + c) + 2)"
      "rnd' (4 * (r * columns + c) + 3) = rnd (4 * (r * columns + c) + 3)"
      by simp_all
  qed
  then show ?thesis
    unfolding generate_grid_closed by (auto intro!: arg_cong [where f = concat])
qed

text \<open>
  C10. The generator calls \<^verbatim>\<open>rand()\<close> four times for each record, cell after cell in
  row-major order: the record at the index \<open>i = row * columns + column\<close> takes its size
  from the draw \<open>4 * i\<close> and its red, green and blue from the draws \<open>4 * i + 1\<close>,
  \<open>4 * i + 2\<close> and \<open>4 * i + 3\<close>; \<open>4 * rows * columns\<close> draws are made in all, and two
  random sources that agree on them give the same records.
\<close>

theorem random_draw_order:
  assumes "row < rows" and "column < columns"
    and "\<forall>k < 4 * (rows * columns). rnd' k = rnd k"
  shows "quad_size (fst (generate_grid RAND_MAX rnd rows columns) ! (row * columns + column)) =
      f32 (f32 (1/20) +
           f32 (f32 (f32 (of_nat (rnd (4 * (row * columns + column)))) / f32 (of_nat RAND_MAX)) *
                f32 (1/25))) \<and>
    quad_r (fst (generate_grid RAND_MAX rnd rows columns) ! (row * columns + column)) =
      of_nat (96 + rnd (4 * (row * columns + column) + 1) mod 128) \<and>
    quad_g (fst (generate_grid RAND_MAX rnd rows columns) ! (row * columns + column)) =
      of_nat (96 + rnd (4 * (row * columns + column) + 2) mod 128) \<and>
    quad_b (fst (generate_grid RAND_MAX rnd rows columns) ! (row * columns + column)) =
      of_nat (96 + rnd (4 * (row * columns + column) + 3) mod 128) \<and>
    snd (generate_grid RAND_MAX rnd rows columns) = 4 * (rows * columns) \<and>
    generate_grid RAND_MAX rnd' rows columns = generate_grid RAND_MAX rnd rows columns"
proof -
  have "snd (generate_grid RAND_MAX rnd rows columns) = 4 * (rows * columns)"
    by (simp add: generate_grid_closed)
  moreover note generate_grid_cong [OF assms(3)]
  ultimately show ?thesis
    using assms(1,2) by (simp add: generate_grid_nth make_quad_size make_quad_color)
qed

theorem random_draw_order_witness:
  "(1::nat) < kRows \<and> (2::nat) < kColumns \<and>
   map (counting 1000) [0..<4 * (kRows * kColumns)] =
     map (counting 400) [0..<4 * (kRows * kColumns)] \<and>
   quad_size (fst (generate_grid 2147483647 (counting 400) kRows kColumns) ! 12) =
     f32 (f32 (1/20) + f32 (f32 (f32 48 / f32 2147483647) * f32 (1/25))) \<and>
   quad_r (fst (generate_grid 2147483647 (counting 400) kRows kColumns) ! 12) = 145 \<and>
   quad_g (fst (generate_grid 2147483647 (counting 400) kRows kColumns) ! 12) = 146 \<and>
   quad_b (fst (generate_grid 2147483647 (counting 400) kRows kColumns) ! 12) = 147 \<and>
   snd (generate_grid 2147483647 (counting 400) kRows kColumns) = 400 \<and>
   generate_grid 2147483647 (counting 1000) kRows kColumns =
     generate_grid 2147483647 (counting 400) kRows kColumns"
proof -
  have r: "(1::nat) < kRows" and c: "(2::nat) < kColumns"
    by (simp_all add: kRows_def kColumns_def)
  have agree: "\<forall>k < 4 * (kRows * kColumns). counting 1000 k = counting 400 k"
    by (simp add: counting_def kRows_def kColumns_def)
  have i: "1 * kColumns + 2 = 12" "4 * (kRows * kColumns) = 400"
    by (simp_all add: kRows_def kColumns_def)
  have draws: "counting 400 48 = 48" "counting 400 49 = 49" "counting 400 50 = 50"
    "counting 400 51 = 51"
    by (simp_all add: counting_def)
  from agree have agree_list: "map (counting 1000) [0..<4 * (kRows * kColumns)] =
      map (counting 400) [0..<4 * (kRows * kColumns)]" by simp
  from random_draw_order [OF r c agree, of 2147483647] r c agree_list
  show ?thesis
    unfolding i by (simp add: draws)
qed


section \<open>Event handling\<close>

lemma HandleEvents_continue: "fst (HandleEvents events) = (SDL_QUIT \<notin> set events)"
  by (induction events rule: HandleEvents.induct) (simp_all add: case_prod_beta Let_def)

lemma HandleEvents_rest: "SDL_QUIT \<notin> set events \<Longrightarrow> snd (snd (HandleEvents events)) = []"
  by (induction events rule: HandleEvents.induct) (simp_all add: case_prod_beta Let_def)

lemma HandleEvents_at_quit:
  "SDL_QUIT \<notin> set before \<Longrightarrow>
   HandleEvents (before @ SDL_QUIT # after) = (False, fst (snd (HandleEvents before)), after)"
  by (induction before rule: HandleEvents.induct) (simp_all add: case_prod_beta Let_def)

lemma HandleEvents_append:
  "SDL_QUIT \<notin> set before \<Longrightarrow>
   fst (snd (HandleEvents (before @ events))) =
     fst (snd (HandleEvents before)) @ fst (snd (HandleEvents events))"
  by (induction before rule: HandleEvents.induct) (simp_all add: case_prod_beta Let_def)

lemma HandleEvents_calls:
  "c \<in> set (fst (snd (HandleEvents events))) \<Longrightarrow> \<exists>w h. c = glViewport 0 0 w h"
  by (induction events rule: HandleEvents.induct)
    (auto simp: case_prod_beta Let_def split: if_splits)

section \<open>The frame loop\<close>

text \<open>A poll without a quit event is followed by one frame and the next poll.\<close>

lemma frame_loop_step:
  assumes "SDL_QUIT \<notin> set (pending env k)"
  shows "frame_loop env win colorLocation k calls =
     frame_loop env win colorLocation (Suc k)
       (calls @ fst (snd (HandleEvents (pending env k))) @ draw_frame win colorLocation)"
proof -
  from assms have "fst (HandleEvents (pending env k))"
    by (simp add: HandleEvents_continue)
  then show ?thesis
    by (subst frame_loop.simps) (simp add: case_prod_beta)
qed

text \<open>The loop ends at the first poll that finds a quit event.\<close>

lemma frame_loop_quits:
  assumes "SDL_QUIT \<in> set (pending env n)"
    and "\<forall>k. k0 \<le> k \<and> k < n \<longrightarrow> SDL_QUIT \<notin> set (pending env k)"
    and "k0 \<le> n"
  shows "frame_loop env (created_window env) (uniform_location env) k0 calls =
     Some (calls @ frames env k0 n @ fst (snd (HandleEvents (pending env n))))"
  using assms
proof (induction "n - k0" arbitrary: k0 calls)
  case 0
  then have "k0 = n" by simp
  with "0.prems"(1) have "\<not> fst (HandleEvents (pending env k0))"
    by (simp add: HandleEvents_continue)
  then show ?case
    using \<open>k0 = n\<close>
    by (subst frame_loop.simps) (simp add: case_prod_beta frames_def)
next
  case (Suc d)
  then have lt: "k0 < n" by simp
  with Suc.prems(2) have "SDL_QUIT \<notin> set (pending env k0)" by simp
  then have go: "fst (HandleEvents (pending env k0))"
    by (simp add: HandleEvents_continue)
  from Suc.hyps(2) have d: "d = n - Suc k0" by simp
  from Suc.prems(2) have later: "\<forall>k. Suc k0 \<le> k \<and> k < n \<longrightarrow> SDL_QUIT \<notin> set (pending env k)"
    by simp
  from lt have le: "Suc k0 \<le> n" by simp
  have upt: "[k0..<n] = k0 # [Suc k0..<n]" using lt by (rule upt_conv_Cons)
  have "frame_loop env (created_window env) (uniform_location env) k0 calls =
        frame_loop env (created_window env) (uniform_location env) (Suc k0)
          (calls @ fst (snd (HandleEvents (pending env k0))) @
           draw_frame (created_window env) (uniform_location env))"
    using go by (subst frame_loop.simps) (simp add: case_prod_beta)
  also have "\<dots> = Some ((calls @ fst (snd (HandleEvents (pending env k0))) @
           draw_frame (created_window env) (uniform_location env)) @
           frames env (Suc k0) n @ fst (snd (HandleEvents (pending env n))))"
    by (rule Suc.hyps(1) [OF d Suc.prems(1) later le])
  finally show ?case by (simp add: frames_def upt)
qed

section \<open>Cleanup\<close>

lemma CleanupSDL_status: "fst (CleanupSDL status s) = status"
  by (simp add: CleanupSDL_def Let_def)

lemma CleanupSDL_calls:
  "snd (snd (CleanupSDL status s)) =
     (if gl_context s \<noteq> 0 then [SDL_GL_DeleteContext (gl_context s)] else []) @
     (if window s \<noteq> 0 then [SDL_DestroyWindow (window s)] else []) @
     [SDL_QuitSubSystem (subsystems s AND SDL_INIT_EVERYTHING)]"
  by (simp add: CleanupSDL_def Let_def)

lemma CleanupSDL_state:
  "fst (snd (CleanupSDL status s)) =
     \<lparr>window = 0, gl_context = 0,
      subsystems = subsystems s AND NOT (subsystems s AND SDL_INIT_EVERYTHING)\<rparr>"
  by (simp add: CleanupSDL_def Let_def)

section \<open>What \<open>main\<close> returns\<close>

lemma main_init_fails:
  assumes "init_result env < 0"
  shows "main env = Some (1,
     [SDL_InitSubSystem (SDL_INIT_VIDEO OR SDL_INIT_TIMER),
      SDL_Log (''Error initializing SDL: '' @ sdl_error env),
      SDL_QuitSubSystem (init_subsystems env AND SDL_INIT_EVERYTHING)])"
  using assms by (simp add: main_def Let_def CleanupSDL_def)

lemma main_window_fails:
  assumes "0 \<le> init_result env" "created_window env = 0"
  shows "main env = Some (1,
     [SDL_InitSubSystem (SDL_INIT_VIDEO OR SDL_INIT_TIMER),
      SDL_GL_SetAttribute SDL_GL_CONTEXT_MAJOR_VERSION 4,
      SDL_GL_SetAttribute SDL_GL_CONTEXT_MINOR_VERSION 1,
      SDL_GL_SetAttribute SDL_GL_CONTEXT_PROFILE_MASK SDL_GL_CONTEXT_PROFILE_CORE,
      SDL_CreateWindow ''Quads'' 800 600,
      SDL_ShowSimpleMessageBox ''Error creating window'' (sdl_error env) 0,
      SDL_QuitSubSystem (init_subsystems env AND SDL_INIT_EVERYTHING)])"
  using assms by (simp add: main_def Let_def CleanupSDL_def)

lemma main_context_fails:
  assumes "0 \<le> init_result env" "created_window env \<noteq> 0" "created_context env = 0"
  shows "main env = Some (1,
     [SDL_InitSubSystem (SDL_INIT_VIDEO OR SDL_INIT_TIMER),
      SDL_GL_SetAttribute SDL_GL_CONTEXT_MAJOR_VERSION 4,
      SDL_GL_SetAttribute SDL_GL_CONTEXT_MINOR_VERSION 1,
      SDL_GL_SetAttribute SDL_GL_CONTEXT_PROFILE_MASK SDL_GL_CONTEXT_PROFILE_CORE,
      SDL_CreateWindow ''Quads'' 800 600,
      SDL_GL_CreateContext (created_window env),
      SDL_ShowSimpleMessageBox ''Error creating OpenGL 4.1 context'' (sdl_error env)
        (created_window env),
      SDL_DestroyWindow (created_window env),
      SDL_QuitSubSystem (init_subsystems env AND SDL_INIT_EVERYTHING)])"
  using assms by (simp add: main_def Let_def CleanupSDL_def)

lemma main_runs:
  assumes ok: "0 \<le> init_result env" "created_window env \<noteq> 0" "created_context env \<noteq> 0"
    and quit: "SDL_QUIT \<in> set (pending env n)"
    and before: "\<forall>k < n. SDL_QUIT \<notin> set (pending env k)"
  shows "main env = Some (0,
     setup_calls env @ frames env 0 n @ fst (snd (HandleEvents (pending env n))) @
     teardown_calls env)"
proof -
  from before have b: "\<forall>k. 0 \<le> k \<and> k < n \<longrightarrow> SDL_QUIT \<notin> set (pending env k)" by simp
  have loop: "frame_loop env (created_window env) (uniform_location env) 0 (setup_calls env) =
      Some (setup_calls env @ frames env 0 n @ fst (snd (HandleEvents (pending env n))))"
    by (rule frame_loop_quits [OF quit b]) simp
  have "main env =
      (case frame_loop env (created_window env) (uniform_location env) 0 (setup_calls env) of
         None \<Rightarrow> None
       | Some t6 \<Rightarrow> Some (0, t6 @ teardown_calls env))"
    using ok
    by (simp add: main_def Let_def case_prod_beta running_state_def setup_calls_def
        teardown_calls_def shader_program_def shader_objects_def CleanupSDL_status
        split: option.split)
  then show ?thesis by (simp add: loop)
qed


section \<open>Quitting\<close>

text \<open>
  C2 (as the code has it). When a poll finds a quit event, \<^verbatim>\<open>HandleEvents\<close> returns
  \<^verbatim>\<open>false\<close> at once: the events before the quit event have taken effect, the events
  after it are left in the queue, and \<open>main\<close> goes on to the teardown and returns \<open>0\<close>.
\<close>

theorem quit_ends_run:
  assumes "0 \<le> init_result env" and "created_window env \<noteq> 0" and "created_context env \<noteq> 0"
    and "\<forall>k < n. SDL_QUIT \<notin> set (pending env k)"
    and "pending env n = before @ SDL_QUIT # after"
    and "SDL_QUIT \<notin> set before"
  shows "HandleEvents (pending env n) = (False, fst (snd (HandleEvents before)), after) \<and>
    main env = Some (0,
      setup_calls env @ frames env 0 n @ fst (snd (HandleEvents before)) @ teardown_calls env)"
proof -
  have h: "HandleEvents (pending env n) = (False, fst (snd (HandleEvents before)), after)"
    unfolding assms(5) using assms(6) by (rule HandleEvents_at_quit)
  have q: "SDL_QUIT \<in> set (pending env n)" by (simp add: assms(5))
  from main_runs [OF assms(1,2,3) q assms(4)] h show ?thesis by simp
qed

theorem quit_ends_run_witness:
  "0 \<le> init_result example_env \<and> created_window example_env \<noteq> 0 \<and>
   created_context example_env \<noteq> 0 \<and>
   SDL_QUIT \<notin> set (pending example_env 0) \<and> SDL_QUIT \<notin> set (pending example_env 1) \<and>
   pending example_env 2 =
     [SDL_OtherEvent 1024] @ SDL_QUIT # [SDL_WINDOWEVENT SDL_WINDOWEVENT_RESIZED 640 480] \<and>
   SDL_QUIT \<notin> set [SDL_OtherEvent 1024] \<and>
   HandleEvents (pending example_env 2) =
     (False, [], [SDL_WINDOWEVENT SDL_WINDOWEVENT_RESIZED 640 480]) \<and>
   main example_env = Some (0,
     setup_calls example_env @ frames example_env 0 2 @ teardown_calls example_env)"
proof -
  have ok: "0 \<le> init_result example_env" "created_window example_env \<noteq> 0"
    "created_context example_env \<noteq> 0"
    by (simp_all add: example_env_def)
  have p: "pending example_env 0 = [SDL_WINDOWEVENT SDL_WINDOWEVENT_RESIZED 1024 768]"
    "pending example_env 1 = []"
    "pending example_env 2 =
       [SDL_OtherEvent 1024] @ SDL_QUIT # [SDL_WINDOWEVENT SDL_WINDOWEVENT_RESIZED 640 480]"
    by (simp_all add: example_env_def example_events_def)
  have early: "\<forall>k < 2. SDL_QUIT \<notin> set (pending example_env k)"
    by (simp add: example_env_def example_events_def)
  have b: "SDL_QUIT \<notin> set [SDL_OtherEvent 1024]" by simp
  from quit_ends_run [OF ok early p(3) b] ok p b show ?thesis by simp
qed

text \<open>
  C2 as the specification words it fails: a resize queued behind the quit event in the
  same poll is not handled. \<^verbatim>\<open>HandleEvents\<close> makes no call and leaves the resize in
  the queue, and the whole run never sets that viewport.
\<close>

theorem event_after_quit_ignored:
  "HandleEvents [SDL_QUIT, SDL_WINDOWEVENT SDL_WINDOWEVENT_RESIZED 640 480] =
     (False, [], [SDL_WINDOWEVENT SDL_WINDOWEVENT_RESIZED 640 480]) \<and>
   main quit_first_env =
     Some (0, setup_calls quit_first_env @ teardown_calls quit_first_env) \<and>
   glViewport 0 0 640 480 \<notin>
     set (setup_calls quit_first_env @ teardown_calls quit_first_env)"
proof -
  have ok: "0 \<le> init_result quit_first_env" "created_window quit_first_env \<noteq> 0"
    "created_context quit_first_env \<noteq> 0"
    by (simp_all add: quit_first_env_def example_env_def)
  have q: "SDL_QUIT \<in> set (pending quit_first_env 0)"
    by (simp add: quit_first_env_def quit_then_resize_def)
  have none: "\<forall>k < 0. SDL_QUIT \<notin> set (pending quit_first_env k)" by simp
  have p: "pending quit_first_env 0 = [SDL_QUIT, SDL_WINDOWEVENT SDL_WINDOWEVENT_RESIZED 640 480]"
    by (simp add: quit_first_env_def quit_then_resize_def)
  have s: "glViewport 0 0 640 480 \<notin> set (setup_calls quit_first_env)"
    by (auto simp: setup_calls_def CreateShader_def CreateShaderProgram_def Let_def)
  have t: "glViewport 0 0 640 480 \<notin> set (teardown_calls quit_first_env)"
    by (auto simp: teardown_calls_def CleanupSDL_calls)
  show ?thesis
    using main_runs [OF ok q none] s t by (simp add: p frames_def)
qed

section \<open>Resizing\<close>

lemma gl_run_append: "gl_run g (xs @ ys) = gl_run (gl_run g xs) ys"
  by (simp add: gl_run_def)

lemma gl_run_Cons: "gl_run g (c # cs) = gl_run (gl_step g c) cs"
  by (simp add: gl_run_def)

lemma gl_run_Nil: "gl_run g [] = g"
  by (simp add: gl_run_def)

text \<open>
  C8. A resize event that \<^verbatim>\<open>HandleEvents\<close> reaches, that is one with no quit event
  before it in the poll, makes the call \<^verbatim>\<open>glViewport(0, 0, w, h)\<close>, and once it is
  handled the viewport is \<open>(0, 0, w, h)\<close>, whatever it was before.
\<close>

theorem resize_sets_viewport:
  assumes "SDL_QUIT \<notin> set before"
  shows "glViewport 0 0 w h \<in>
      set (fst (snd (HandleEvents
        (before @ SDL_WINDOWEVENT SDL_WINDOWEVENT_RESIZED w h # after)))) \<and>
    viewport (gl_run g (fst (snd (HandleEvents
        (before @ [SDL_WINDOWEVENT SDL_WINDOWEVENT_RESIZED w h]))))) = (0, 0, w, h)"
proof -
  have "fst (snd (HandleEvents (before @ SDL_WINDOWEVENT SDL_WINDOWEVENT_RESIZED w h # after))) =
      fst (snd (HandleEvents before)) @
      fst (snd (HandleEvents (SDL_WINDOWEVENT SDL_WINDOWEVENT_RESIZED w h # after)))"
    using assms by (rule HandleEvents_append)
  then have mem: "glViewport 0 0 w h \<in>
      set (fst (snd (HandleEvents
        (before @ SDL_WINDOWEVENT SDL_WINDOWEVENT_RESIZED w h # after))))"
    by (simp add: case_prod_beta)
  have "fst (snd (HandleEvents (before @ [SDL_WINDOWEVENT SDL_WINDOWEVENT_RESIZED w h]))) =
      fst (snd (HandleEvents before)) @ [glViewport 0 0 w h]"
    using HandleEvents_append [OF assms, of "[SDL_WINDOWEVENT SDL_WINDOWEVENT_RESIZED w h]"]
    by simp
  then have "viewport (gl_run g (fst (snd (HandleEvents
        (before @ [SDL_WINDOWEVENT SDL_WINDOWEVENT_RESIZED w h]))))) = (0, 0, w, h)"
    by (simp add: gl_run_append gl_run_Cons gl_run_Nil gl_step_def)
  with mem show ?thesis by simp
qed

theorem resize_sets_viewport_witness:
  "SDL_QUIT \<notin> set [SDL_OtherEvent 1024, SDL_WINDOWEVENT SDL_WINDOWEVENT_RESIZED 1024 768] \<and>
   fst (snd (HandleEvents
     ([SDL_OtherEvent 1024, SDL_WINDOWEVENT SDL_WINDOWEVENT_RESIZED 1024 768] @
       SDL_WINDOWEVENT SDL_WINDOWEVENT_RESIZED 640 480 # [SDL_QUIT]))) =
     [glViewport 0 0 1024 768, glViewport 0 0 640 480] \<and>
   glViewport 0 0 640 480 \<in>
     set (fst (snd (HandleEvents
       ([SDL_OtherEvent 1024, SDL_WINDOWEVENT SDL_WINDOWEVENT_RESIZED 1024 768] @
         SDL_WINDOWEVENT SDL_WINDOWEVENT_RESIZED 640 480 # [SDL_QUIT])))) \<and>
   viewport (gl_run (fresh_gl 800 600) (fst (snd (HandleEvents
       ([SDL_OtherEvent 1024, SDL_WINDOWEVENT SDL_WINDOWEVENT_RESIZED 1024 768] @
         [SDL_WINDOWEVENT SDL_WINDOWEVENT_RESIZED 640 480]))))) = (0, 0, 640, 480)"
proof -
  have b: "SDL_QUIT \<notin> set [SDL_OtherEvent 1024,
      SDL_WINDOWEVENT SDL_WINDOWEVENT_RESIZED 1024 768]" by simp
  have calls: "fst (snd (HandleEvents
     ([SDL_OtherEvent 1024, SDL_WINDOWEVENT SDL_WINDOWEVENT_RESIZED 1024 768] @
       SDL_WINDOWEVENT SDL_WINDOWEVENT_RESIZED 640 480 # [SDL_QUIT]))) =
     [glViewport 0 0 1024 768, glViewport 0 0 640 480]"
    by simp
  from resize_sets_viewport [OF b, of 640 480 "[SDL_QUIT]" "fresh_gl 800 600"] b calls
  show ?thesis by (simp only: simp_thms)
qed

section \<open>Cleaning up twice\<close>

lemma quit_flags_once: "(m AND NOT (m AND e)) AND e = (0 :: 32 word)"
  by (simp add: bit_eq_iff bit_simps)

lemma CleanupSDL_clean:
  assumes "window s = 0" "gl_context s = 0" "subsystems s AND SDL_INIT_EVERYTHING = 0"
  shows "CleanupSDL status s = (status, s, [SDL_QuitSubSystem 0])"
  using assms by (simp add: CleanupSDL_def Let_def del: bit.de_Morgan_conj)

text \<open>
  C9. \<^verbatim>\<open>CleanupSDL\<close> returns the status it is given and leaves both globals null. It
  deletes the context only when there is one and destroys the window only when there is
  one. Run again, on the state it left, it returns the status it is given, changes
  nothing, and its one call is \<^verbatim>\<open>SDL_QuitSubSystem(0)\<close>.
\<close>

theorem cleanup_idempotent:
  "fst (CleanupSDL status s) = status \<and>
   window (fst (snd (CleanupSDL status s))) = 0 \<and>
   gl_context (fst (snd (CleanupSDL status s))) = 0 \<and>
   filter destroys (snd (snd (CleanupSDL status s))) =
     (if gl_context s = 0 then [] else [SDL_GL_DeleteContext (gl_context s)]) @
     (if window s = 0 then [] else [SDL_DestroyWindow (window s)]) \<and>
   CleanupSDL status' (fst (snd (CleanupSDL status s))) =
     (status', fst (snd (CleanupSDL status s)), [SDL_QuitSubSystem 0])"
proof -
  have again: "CleanupSDL status' (fst (snd (CleanupSDL status s))) =
      (status', fst (snd (CleanupSDL status s)), [SDL_QuitSubSystem 0])"
    by (rule CleanupSDL_clean)
      (simp_all add: CleanupSDL_state quit_flags_once del: bit.de_Morgan_conj)
  have d: "filter destroys (snd (snd (CleanupSDL status s))) =
     (if gl_context s = 0 then [] else [SDL_GL_DeleteContext (gl_context s)]) @
     (if window s = 0 then [] else [SDL_DestroyWindow (window s)])"
    by (simp add: CleanupSDL_calls destroys_def)
  show ?thesis
    using again d by (simp add: CleanupSDL_status CleanupSDL_state)
qed

section \<open>Bootstrap failures\<close>

text \<open>
  C6. When \<^verbatim>\<open>SDL_InitSubSystem\<close> fails, or the window or the context cannot be created,
  \<open>main\<close> returns \<open>1\<close>; it makes none of the calls of the frame loop; and the only thing
  it destroys is the window, in the one case where there is a window: no OpenGL object,
  no context and no null window.
\<close>

theorem bootstrap_failure:
  assumes "init_result env < 0 \<or> created_window env = 0 \<or> created_context env = 0"
  shows "\<exists>calls. main env = Some (1, calls) \<and>
    filter frame_call calls = [] \<and>
    filter destroys calls =
      (if 0 \<le> init_result env \<and> created_window env \<noteq> 0
       then [SDL_DestroyWindow (created_window env)] else [])"
proof (cases "init_result env < 0")
  case True
  then show ?thesis
    by (simp add: main_init_fails frame_call_def destroys_def)
next
  case init: False
  show ?thesis
  proof (cases "created_window env = 0")
    case True
    with init show ?thesis
      by (simp add: main_window_fails frame_call_def destroys_def)
  next
    case False
    with init assms have "created_context env = 0" by simp
    with init False show ?thesis
      by (simp add: main_context_fails frame_call_def destroys_def)
  qed
qed

theorem bootstrap_failure_witness:
  "(init_result no_context_env < 0 \<or> created_window no_context_env = 0 \<or>
      created_context no_context_env = 0) \<and>
   (\<exists>calls. main no_context_env = Some (1, calls) \<and>
      filter frame_call calls = [] \<and>
      filter destroys calls = [SDL_DestroyWindow 7])"
proof -
  have f: "init_result no_context_env < 0 \<or> created_window no_context_env = 0 \<or>
      created_context no_context_env = 0"
    by (simp add: no_context_env_def example_env_def)
  from bootstrap_failure [OF f] f show ?thesis
    by (simp add: no_context_env_def example_env_def)
qed


section \<open>What a run draws\<close>

lemma foldl_ignore: "foldl (\<lambda>a x. a) g xs = g"
  by (induction xs) simp_all

lemma gl_run_setup: "gl_run g (setup_calls env) = g"
  by (simp add: gl_run_def setup_calls_def CreateShader_def CreateShaderProgram_def Let_def
      gl_step_def foldl_map foldl_ignore)

lemma gl_run_teardown: "gl_run g (teardown_calls env) = g"
  by (simp add: gl_run_def teardown_calls_def CleanupSDL_calls gl_step_def foldl_map
      foldl_ignore)

lemma gl_run_viewports:
  "\<forall>c \<in> set calls. \<exists>w h. c = glViewport 0 0 w h \<Longrightarrow>
   mode (gl_run g calls) = mode g \<and> color (gl_run g calls) = color g \<and>
   shown (gl_run g calls) = shown g"
proof (induction calls arbitrary: g)
  case Nil
  show ?case by (simp add: gl_run_Nil)
next
  case (Cons c calls)
  then obtain w h where c: "c = glViewport 0 0 w h" by auto
  from Cons.prems have "\<forall>c \<in> set calls. \<exists>w h. c = glViewport 0 0 w h" by simp
  from Cons.IH [OF this, of "gl_step g c"] show ?case
    by (simp add: gl_run_Cons c gl_step_def)
qed

lemma gl_run_events:
  "mode (gl_run g (fst (snd (HandleEvents events)))) = mode g"
  "color (gl_run g (fst (snd (HandleEvents events)))) = color g"
  "shown (gl_run g (fst (snd (HandleEvents events)))) = shown g"
  using gl_run_viewports [of "fst (snd (HandleEvents events))" g] HandleEvents_calls
  by blast+

text \<open>One pass through the body of the loop, from any state of OpenGL.\<close>

lemma gl_run_draw_frame:
  "shown (gl_run g (draw_frame win location)) =
     shown g @
     [Draw GL_PATCHES (mode g) (Some (location, 0, 0, 0)) 0
        (int (kRows * kColumns)) (int (kRows * kColumns)),
      Draw GL_PATCHES GL_LINE (Some (location, 1, 1, 1)) 0
        (int (kRows * kColumns)) (int (kRows * kColumns)),
      Present GL_FILL]"
  "mode (gl_run g (draw_frame win location)) = GL_FILL"
  by (simp_all add: gl_run_def draw_frame_def gl_step_def patches_submitted_def
      kRows_def kColumns_def)

lemma frames_Suc:
  "frames env 0 (Suc n) =
     frames env 0 n @ fst (snd (HandleEvents (pending env n))) @
     draw_frame (created_window env) (uniform_location env)"
  by (simp add: frames_def)

lemma gl_run_frames:
  assumes "mode g = GL_FILL"
  shows "shown (gl_run g (frames env 0 n)) =
      shown g @ concat (replicate n
        [Draw GL_PATCHES GL_FILL (Some (uniform_location env, 0, 0, 0)) 0
           (int (kRows * kColumns)) (int (kRows * kColumns)),
         Draw GL_PATCHES GL_LINE (Some (uniform_location env, 1, 1, 1)) 0
           (int (kRows * kColumns)) (int (kRows * kColumns)),
         Present GL_FILL]) \<and>
    mode (gl_run g (frames env 0 n)) = GL_FILL"
proof (induction n)
  case 0
  show ?case using assms by (simp add: frames_def gl_run_Nil)
next
  case (Suc n)
  define g1 where "g1 = gl_run g (frames env 0 n)"
  define g2 where "g2 = gl_run g1 (fst (snd (HandleEvents (pending env n))))"
  have run: "gl_run g (frames env 0 (Suc n)) =
      gl_run g2 (draw_frame (created_window env) (uniform_location env))"
    by (simp add: frames_Suc gl_run_append g1_def g2_def)
  have m2: "mode g2 = GL_FILL" and s2: "shown g2 = shown g1"
    using Suc.IH by (simp_all add: g2_def gl_run_events g1_def)
  have rep: "concat (replicate (Suc n) xs) = concat (replicate n xs) @ xs" for xs :: "gl_output list"
    by (induction n) simp_all
  show ?case
    unfolding run gl_run_draw_frame m2 s2 rep
    using Suc.IH by (simp add: g1_def)
qed

text \<open>
  C5. In a run that gets past the bootstrap and finds its first quit event at the poll
  \<open>n\<close>, what is drawn and presented is \<open>n\<close> times the same frame. First a draw of
  \<^verbatim>\<open>GL_PATCHES\<close> from the vertex \<open>0\<close>, of \<open>kRows * kColumns = 100\<close> vertices with one
  vertex to a patch, that is \<open>100\<close> patches, in fill mode after \<^verbatim>\<open>glUniform3f\<close> has
  been given \<open>(0, 0, 0)\<close> at the location of \<^verbatim>\<open>ConstantColor\<close>. Then the same draw of
  \<open>100\<close> patches in line mode after it has been given \<open>(1, 1, 1)\<close>. Then the
  presentation, with fill mode restored. Nothing else is drawn.
\<close>

theorem two_draws_per_frame:
  assumes "0 \<le> init_result env" and "created_window env \<noteq> 0" and "created_context env \<noteq> 0"
    and "SDL_QUIT \<in> set (pending env n)"
    and "\<forall>k < n. SDL_QUIT \<notin> set (pending env k)"
  shows "kRows * kColumns = 100 \<and>
    (\<exists>calls. main env = Some (0, calls) \<and>
      shown (gl_run (fresh_gl width height) calls) =
        concat (replicate n
          [Draw GL_PATCHES GL_FILL (Some (uniform_location env, 0, 0, 0)) 0
             (int (kRows * kColumns)) (int (kRows * kColumns)),
           Draw GL_PATCHES GL_LINE (Some (uniform_location env, 1, 1, 1)) 0
             (int (kRows * kColumns)) (int (kRows * kColumns)),
           Present GL_FILL]))"
proof -
  have m: "mode (fresh_gl width height) = GL_FILL" and s: "shown (fresh_gl width height) = []"
    by (simp_all add: fresh_gl_def)
  have "shown (gl_run (fresh_gl width height)
      (setup_calls env @ frames env 0 n @ fst (snd (HandleEvents (pending env n))) @
       teardown_calls env)) =
    shown (gl_run (fresh_gl width height) (frames env 0 n))"
    by (simp add: gl_run_append gl_run_setup gl_run_teardown gl_run_events)
  also have "\<dots> = concat (replicate n
        [Draw GL_PATCHES GL_FILL (Some (uniform_location env, 0, 0, 0)) 0
           (int (kRows * kColumns)) (int (kRows * kColumns)),
         Draw GL_PATCHES GL_LINE (Some (uniform_location env, 1, 1, 1)) 0
           (int (kRows * kColumns)) (int (kRows * kColumns)),
         Present GL_FILL])"
    using gl_run_frames [OF m, of env n] by (simp add: s)
  finally have drawn: "shown (gl_run (fresh_gl width height)
      (setup_calls env @ frames env 0 n @ fst (snd (HandleEvents (pending env n))) @
       teardown_calls env)) =
    concat (replicate n
        [Draw GL_PATCHES GL_FILL (Some (uniform_location env, 0, 0, 0)) 0
           (int (kRows * kColumns)) (int (kRows * kColumns)),
         Draw GL_PATCHES GL_LINE (Some (uniform_location env, 1, 1, 1)) 0
           (int (kRows * kColumns)) (int (kRows * kColumns)),
         Present GL_FILL])" .
  have "kRows * kColumns = 100" by (simp add: kRows_def kColumns_def)
  with main_runs [OF assms] drawn show ?thesis by blast
qed

theorem two_draws_per_frame_witness:
  "0 \<le> init_result example_env \<and> created_window example_env \<noteq> 0 \<and>
   created_context example_env \<noteq> 0 \<and>
   SDL_QUIT \<in> set (pending example_env 2) \<and>
   SDL_QUIT \<notin> set (pending example_env 0) \<and> SDL_QUIT \<notin> set (pending example_env 1) \<and>
   (\<exists>calls. main example_env = Some (0, calls) \<and>
      shown (gl_run (fresh_gl 800 600) calls) =
        [Draw GL_PATCHES GL_FILL (Some (0, 0, 0, 0)) 0 100 100,
         Draw GL_PATCHES GL_LINE (Some (0, 1, 1, 1)) 0 100 100,
         Present GL_FILL,
         Draw GL_PATCHES GL_FILL (Some (0, 0, 0, 0)) 0 100 100,
         Draw GL_PATCHES GL_LINE (Some (0, 1, 1, 1)) 0 100 100,
         Present GL_FILL])"
proof -
  have ok: "0 \<le> init_result example_env" "created_window example_env \<noteq> 0"
    "created_context example_env \<noteq> 0"
    by (simp_all add: example_env_def)
  have q: "SDL_QUIT \<in> set (pending example_env 2)"
    by (simp add: example_env_def example_events_def)
  have early: "\<forall>k < 2. SDL_QUIT \<notin> set (pending example_env k)"
    by (simp add: example_env_def example_events_def)
  have e: "SDL_QUIT \<notin> set (pending example_env 0)" "SDL_QUIT \<notin> set (pending example_env 1)"
    using early by simp_all
  have u: "uniform_location example_env = 0" by (simp add: example_env_def)
  have two: "replicate 2 x = [x, x]" for x :: "gl_output list"
    by (simp add: numeral_2_eq_2)
  from two_draws_per_frame [OF ok q early, of 800 600] ok q e
  show ?thesis by (simp add: u two kRows_def kColumns_def)
qed

section \<open>A shader that does not compile\<close>

lemma CreateShader_fails:
  "\<not> compile_status env type \<Longrightarrow> fst (CreateShader env s type src) = 0"
  by (simp add: CreateShader_def Let_def)

lemma failed_shader_stays:
  assumes "\<not> compile_status env type"
  shows "0 \<in> set (shader_objects env)"
  using assms by (cases type) (simp_all add: shader_objects_def CreateShader_fails)

lemma program_takes_shaders:
  "h \<in> set (shader_objects env) \<Longrightarrow> glAttachShader (created_program env) h \<in> set (setup_calls env)"
  "glLinkProgram (created_program env) \<in> set (setup_calls env)"
  by (simp_all add: setup_calls_def CreateShaderProgram_def Let_def)

text \<open>
  C7. When a stage does not compile, \<^verbatim>\<open>CreateShader\<close> fetches the log, shows it in a
  message box, deletes the shader object and returns \<open>0\<close>. The run goes on: the handle
  \<open>0\<close> is among the shader objects, it is attached to the program object, the program is
  linked, the frame loop runs until the quit event, and \<open>main\<close> returns \<open>0\<close>.
\<close>

theorem failed_shader_does_not_stop_run:
  assumes "\<not> compile_status env type"
    and "0 \<le> init_result env" and "created_window env \<noteq> 0" and "created_context env \<noteq> 0"
    and "SDL_QUIT \<in> set (pending env n)"
    and "\<forall>k < n. SDL_QUIT \<notin> set (pending env k)"
  shows "CreateShader env s type src =
      (0, [glCreateShader type,
           glShaderSource (created_shader env type) src,
           glCompileShader (created_shader env type),
           glGetShaderiv (created_shader env type),
           glGetShaderInfoLog (created_shader env type),
           SDL_ShowSimpleMessageBox ''Shader compilation failed''
             (take 511 (shader_log env type)) (window s),
           glDeleteShader (created_shader env type)]) \<and>
    0 \<in> set (shader_objects env) \<and>
    glAttachShader (created_program env) 0 \<in> set (setup_calls env) \<and>
    glLinkProgram (created_program env) \<in> set (setup_calls env) \<and>
    main env = Some (0,
      setup_calls env @ frames env 0 n @ fst (snd (HandleEvents (pending env n))) @
      teardown_calls env)"
proof -
  have "CreateShader env s type src =
      (0, [glCreateShader type,
           glShaderSource (created_shader env type) src,
           glCompileShader (created_shader env type),
           glGetShaderiv (created_shader env type),
           glGetShaderInfoLog (created_shader env type),
           SDL_ShowSimpleMessageBox ''Shader compilation failed''
             (take 511 (shader_log env type)) (window s),
           glDeleteShader (created_shader env type)])"
    using assms(1) by (simp add: CreateShader_def Let_def)
  moreover note failed_shader_stays [OF assms(1)]
  moreover note program_takes_shaders(1) [OF failed_shader_stays [OF assms(1)]]
  moreover note program_takes_shaders(2) [of env]
  moreover note main_runs [OF assms(2,3,4,5,6)]
  ultimately show ?thesis by (simp only: simp_thms)
qed

theorem failed_shader_does_not_stop_run_witness:
  "\<not> compile_status broken_shader_env GL_FRAGMENT_SHADER \<and>
   0 \<le> init_result broken_shader_env \<and> created_window broken_shader_env \<noteq> 0 \<and>
   created_context broken_shader_env \<noteq> 0 \<and>
   SDL_QUIT \<in> set (pending broken_shader_env 2) \<and>
   SDL_QUIT \<notin> set (pending broken_shader_env 0) \<and>
   SDL_QUIT \<notin> set (pending broken_shader_env 1) \<and>
   CreateShader broken_shader_env (running_state broken_shader_env) GL_FRAGMENT_SHADER
       FragmentShaderSource =
     (0, [glCreateShader GL_FRAGMENT_SHADER,
          glShaderSource 3 FragmentShaderSource,
          glCompileShader 3,
          glGetShaderiv 3,
          glGetShaderInfoLog 3,
          SDL_ShowSimpleMessageBox ''Shader compilation failed'' ''ERROR: 0:8: syntax error'' 7,
          glDeleteShader 3]) \<and>
   shader_objects broken_shader_env = [1, 2, 0] \<and>
   glAttachShader 4 0 \<in> set (setup_calls broken_shader_env) \<and>
   glLinkProgram 4 \<in> set (setup_calls broken_shader_env) \<and>
   main broken_shader_env = Some (0,
     setup_calls broken_shader_env @ frames broken_shader_env 0 2 @
     teardown_calls broken_shader_env)"
proof -
  have c: "\<not> compile_status broken_shader_env GL_FRAGMENT_SHADER"
    by (simp add: broken_shader_env_def fragment_fails_def)
  have ok: "0 \<le> init_result broken_shader_env" "created_window broken_shader_env \<noteq> 0"
    "created_context broken_shader_env \<noteq> 0"
    by (simp_all add: broken_shader_env_def example_env_def)
  have q: "SDL_QUIT \<in> set (pending broken_shader_env 2)"
    by (simp add: broken_shader_env_def example_env_def example_events_def)
  have early: "\<forall>k < 2. SDL_QUIT \<notin> set (pending broken_shader_env k)"
    by (simp add: broken_shader_env_def example_env_def example_events_def)
  have e: "SDL_QUIT \<notin> set (pending broken_shader_env 0)"
    "SDL_QUIT \<notin> set (pending broken_shader_env 1)"
    using early by simp_all
  have objs: "shader_objects broken_shader_env = [1, 2, 0]"
    by (simp add: shader_objects_def CreateShader_def Let_def broken_shader_env_def
        example_env_def fragment_fails_def example_shader_def)
  have vals: "created_shader broken_shader_env GL_FRAGMENT_SHADER = 3"
    "take 511 (shader_log broken_shader_env GL_FRAGMENT_SHADER) = ''ERROR: 0:8: syntax error''"
    "window (running_state broken_shader_env) = 7"
    "created_program broken_shader_env = 4"
    "fst (snd (HandleEvents (pending broken_shader_env 2))) = []"
    by (simp_all add: broken_shader_env_def example_env_def example_shader_def fragment_log_def
        running_state_def example_events_def)
  from failed_shader_does_not_stop_run [OF c ok q early,
      of "running_state broken_shader_env" FragmentShaderSource] c ok q e objs
  show ?thesis by (simp add: vals)
qed


end
